theory Spec2Isabelle
  imports Main "HOL-Library.Sublist" "HOL-Library.Extended_Nat"
begin

section \<open>JavaScript strings\<close>

text \<open>
  A JavaScript string is a finite sequence of UTF-16 code units. A code unit is
  modelled as a natural number (below \<open>0x10000\<close> in every string the program can
  hold); literals of the source are written \<open>str ''...''\<close>.
\<close>

type_synonym jsstring = "nat list"

definition str :: "string \<Rightarrow> jsstring" where
  "str s = map of_char s"

definition NL :: jsstring where
  "NL = [10]"

text \<open>
  \<open>String.prototype.trim\<close> removes the code units of WhiteSpace and LineTerminator
  (ECMA-262, 22.1.3.32) from both ends; \<open>\s\<close> of a regular expression is the same set.
\<close>

definition isWhiteSpace :: "nat \<Rightarrow> bool" where
  "isWhiteSpace c \<longleftrightarrow>
     c = 0x09 \<or> c = 0x0A \<or> c = 0x0B \<or> c = 0x0C \<or> c = 0x0D \<or> c = 0x20 \<or> c = 0xA0 \<or>
     c = 0x1680 \<or> (0x2000 \<le> c \<and> c \<le> 0x200A) \<or> c = 0x2028 \<or> c = 0x2029 \<or>
     c = 0x202F \<or> c = 0x205F \<or> c = 0x3000 \<or> c = 0xFEFF"

definition trimStart :: "jsstring \<Rightarrow> jsstring" where
  "trimStart s = dropWhile isWhiteSpace s"

definition trimEnd :: "jsstring \<Rightarrow> jsstring" where
  "trimEnd s = rev (dropWhile isWhiteSpace (rev s))"

definition trim :: "jsstring \<Rightarrow> jsstring" where
  "trim s = trimEnd (trimStart s)"

text \<open>\<open>s.startsWith(p)\<close> and \<open>s.endsWith(p)\<close>.\<close>

definition startsWith :: "jsstring \<Rightarrow> jsstring \<Rightarrow> bool" where
  "startsWith s p \<longleftrightarrow> take (length p) s = p"

definition endsWith :: "jsstring \<Rightarrow> jsstring \<Rightarrow> bool" where
  "endsWith s p \<longleftrightarrow> length p \<le> length s \<and> drop (length s - length p) s = p"

text \<open>\<open>s.includes(p)\<close>: \<open>p\<close> occurs in \<open>s\<close> as a contiguous run.\<close>

fun includesStr :: "jsstring \<Rightarrow> jsstring \<Rightarrow> bool" where
  "includesStr [] p = (p = [])"
| "includesStr (c # cs) p = (startsWith (c # cs) p \<or> includesStr cs p)"

text \<open>
  \<open>s.split(sep)\<close> for a separator of one code unit: the pieces between the
  separators, at least one piece (\<open>''''.split('\n')\<close> is \<open>['''']\<close>).
\<close>

fun splitOn :: "nat \<Rightarrow> jsstring \<Rightarrow> jsstring list" where
  "splitOn sep [] = [[]]"
| "splitOn sep (c # cs) =
     (if c = sep then [] # splitOn sep cs
      else (case splitOn sep cs of [] \<Rightarrow> [[c]] | l # ls \<Rightarrow> (c # l) # ls))"

text \<open>\<open>parts.join(sep)\<close>; the empty array joins to the empty string.\<close>

fun joinWith :: "jsstring \<Rightarrow> jsstring list \<Rightarrow> jsstring" where
  "joinWith sep [] = []"
| "joinWith sep [l] = l"
| "joinWith sep (l # ls) = l @ sep @ joinWith sep ls"

section \<open>Percent encoding\<close>

text \<open>
  \<open>encodeURIComponent\<close> and \<open>decodeURIComponent\<close> are built-ins of the language
  (ECMA-262, 19.2.6); they are modelled after the algorithms Encode and Decode given
  there. Both throw URIError, which is the value \<open>None\<close> here.
\<close>

definition isLeadSurrogate :: "nat \<Rightarrow> bool" where
  "isLeadSurrogate c \<longleftrightarrow> 0xD800 \<le> c \<and> c \<le> 0xDBFF"

definition isTrailSurrogate :: "nat \<Rightarrow> bool" where
  "isTrailSurrogate c \<longleftrightarrow> 0xDC00 \<le> c \<and> c \<le> 0xDFFF"

text \<open>The unreserved set of \<open>encodeURIComponent\<close>: letters, digits and \<open>-_.!~*'()\<close>.\<close>

definition isUnreserved :: "nat \<Rightarrow> bool" where
  "isUnreserved c \<longleftrightarrow>
     (0x41 \<le> c \<and> c \<le> 0x5A) \<or> (0x61 \<le> c \<and> c \<le> 0x7A) \<or> (0x30 \<le> c \<and> c \<le> 0x39) \<or>
     c = 0x2D \<or> c = 0x5F \<or> c = 0x2E \<or> c = 0x21 \<or> c = 0x7E \<or> c = 0x2A \<or>
     c = 0x27 \<or> c = 0x28 \<or> c = 0x29"

text \<open>The UTF-8 octets of a code point.\<close>

definition utf8Octets :: "nat \<Rightarrow> nat list" where
  "utf8Octets cp =
     (if cp < 0x80 then [cp]
      else if cp < 0x800 then [0xC0 + cp div 64, 0x80 + cp mod 64]
      else if cp < 0x10000 then
        [0xE0 + cp div 4096, 0x80 + (cp div 64) mod 64, 0x80 + cp mod 64]
      else
        [0xF0 + cp div 262144, 0x80 + (cp div 4096) mod 64,
         0x80 + (cp div 64) mod 64, 0x80 + cp mod 64])"

definition hexDigit :: "nat \<Rightarrow> nat" where
  "hexDigit d = (if d < 10 then 0x30 + d else 0x41 + (d - 10))"

text \<open>One octet as \<open>%XY\<close>, upper-case hexadecimal.\<close>

definition pctOctet :: "nat \<Rightarrow> jsstring" where
  "pctOctet b = [0x25, hexDigit (b div 16), hexDigit (b mod 16)]"

definition pctEscape :: "nat \<Rightarrow> jsstring" where
  "pctEscape cp = concat (map pctOctet (utf8Octets cp))"

fun encodeURIComponent :: "jsstring \<Rightarrow> jsstring option" where
  "encodeURIComponent [] = Some []"
| "encodeURIComponent (c # cs) =
     (if isUnreserved c then map_option (\<lambda>r. c # r) (encodeURIComponent cs)
      else if isTrailSurrogate c then None
      else if isLeadSurrogate c then
        (case cs of
           [] \<Rightarrow> None
         | d # ds \<Rightarrow>
             if isTrailSurrogate d then
               map_option
                 (\<lambda>r. pctEscape ((c - 0xD800) * 0x400 + (d - 0xDC00) + 0x10000) @ r)
                 (encodeURIComponent ds)
             else None)
      else map_option (\<lambda>r. pctEscape c @ r) (encodeURIComponent cs))"

definition hexVal :: "nat \<Rightarrow> nat option" where
  "hexVal c =
     (if 0x30 \<le> c \<and> c \<le> 0x39 then Some (c - 0x30)
      else if 0x41 \<le> c \<and> c \<le> 0x46 then Some (c - 0x41 + 10)
      else if 0x61 \<le> c \<and> c \<le> 0x66 then Some (c - 0x61 + 10)
      else None)"

text \<open>
  Decode reads the string left to right. A code unit other than \<open>%\<close> is copied; a
  \<open>%\<close> must be followed by two hexadecimal digits, and gives an octet. The first scan
  below turns the string into these items; the second one assembles the octets into
  code points. Every failure of Decode is a URIError with no partial result, so the
  two scans fail on the same strings as the one loop of the standard.
\<close>

datatype uriItem = Unit nat | Octet nat

fun uriItems :: "jsstring \<Rightarrow> uriItem list option" where
  "uriItems [] = Some []"
| "uriItems (c # cs) =
     (if c = 0x25 then
        (case cs of
           h # l # rest \<Rightarrow>
             (case (hexVal h, hexVal l) of
                (Some a, Some b) \<Rightarrow> map_option (\<lambda>r. Octet (16 * a + b) # r) (uriItems rest)
              | _ \<Rightarrow> None)
         | _ \<Rightarrow> None)
      else map_option (\<lambda>r. Unit c # r) (uriItems cs))"

definition isContinuation :: "nat \<Rightarrow> bool" where
  "isContinuation b \<longleftrightarrow> 0x80 \<le> b \<and> b \<le> 0xBF"

text \<open>A code point as one code unit, or as a surrogate pair.\<close>

definition utf16Units :: "nat \<Rightarrow> jsstring" where
  "utf16Units cp =
     (if cp < 0x10000 then [cp]
      else [0xD800 + (cp - 0x10000) div 0x400, 0xDC00 + (cp - 0x10000) mod 0x400])"

text \<open>
  An octet below \<open>0x80\<close> is the code unit itself. Otherwise its leading one bits give
  the length of a UTF-8 sequence (2 to 4), whose other octets follow as escapes; the
  sequence must be the shortest encoding of a code point that is no surrogate and is
  at most \<open>0x10FFFF\<close>.
\<close>

fun assembleItems :: "uriItem list \<Rightarrow> jsstring option" where
  "assembleItems [] = Some []"
| "assembleItems (Unit c # ts) = map_option (\<lambda>r. c # r) (assembleItems ts)"
| "assembleItems (Octet b # ts) =
     (if b < 0x80 then map_option (\<lambda>r. b # r) (assembleItems ts)
      else if 0xC0 \<le> b \<and> b < 0xE0 then
        (case ts of
           Octet b1 # r \<Rightarrow>
             (let v = (b - 0xC0) * 64 + (b1 - 0x80) in
              if isContinuation b1 \<and> 0x80 \<le> v
              then map_option (\<lambda>u. utf16Units v @ u) (assembleItems r) else None)
         | _ \<Rightarrow> None)
      else if 0xE0 \<le> b \<and> b < 0xF0 then
        (case ts of
           Octet b1 # Octet b2 # r \<Rightarrow>
             (let v = (b - 0xE0) * 4096 + (b1 - 0x80) * 64 + (b2 - 0x80) in
              if isContinuation b1 \<and> isContinuation b2 \<and> 0x800 \<le> v \<and>
                 \<not> (0xD800 \<le> v \<and> v \<le> 0xDFFF)
              then map_option (\<lambda>u. utf16Units v @ u) (assembleItems r) else None)
         | _ \<Rightarrow> None)
      else if 0xF0 \<le> b \<and> b < 0xF8 then
        (case ts of
           Octet b1 # Octet b2 # Octet b3 # r \<Rightarrow>
             (let v = (b - 0xF0) * 262144 + (b1 - 0x80) * 4096 + (b2 - 0x80) * 64 +
                      (b3 - 0x80) in
              if isContinuation b1 \<and> isContinuation b2 \<and> isContinuation b3 \<and>
                 0x10000 \<le> v \<and> v \<le> 0x10FFFF
              then map_option (\<lambda>u. utf16Units v @ u) (assembleItems r) else None)
         | _ \<Rightarrow> None)
      else None)"

definition decodeURIComponent :: "jsstring \<Rightarrow> jsstring option" where
  "decodeURIComponent s = (case uriItems s of None \<Rightarrow> None | Some ts \<Rightarrow> assembleItems ts)"

text \<open>
  A string is well-formed UTF-16 when every element is a code unit and every
  surrogate is half of a pair. These are the strings on which
  \<open>encodeURIComponent\<close> does not throw.
\<close>

fun wellFormedUTF16 :: "jsstring \<Rightarrow> bool" where
  "wellFormedUTF16 [] = True"
| "wellFormedUTF16 (c # cs) =
     (c < 0x10000 \<and>
      (if isTrailSurrogate c then False
       else if isLeadSurrogate c then
         (case cs of [] \<Rightarrow> False | d # ds \<Rightarrow> isTrailSurrogate d \<and> wellFormedUTF16 ds)
       else wellFormedUTF16 cs))"

section \<open>Section framing\<close>

definition HAPI_REPO_SECTION_PREFIX :: jsstring where
  "HAPI_REPO_SECTION_PREFIX = str ''@@HAPI_REPO ''"

definition HAPI_REPO_SECTION_END :: jsstring where
  "HAPI_REPO_SECTION_END = str ''@@HAPI_REPO_END''"

record RepoScopedOutput =
  repo :: "jsstring option"
  outputText :: jsstring

definition decodeRepoSectionName :: "jsstring \<Rightarrow> jsstring" where
  "decodeRepoSectionName name =
     (case decodeURIComponent name of Some d \<Rightarrow> d | None \<Rightarrow> name)"

text \<open>\<open>wrapRepoSectionOutput\<close> throws when \<open>encodeURIComponent\<close> does.\<close>

definition wrapRepoSectionOutput :: "jsstring \<Rightarrow> jsstring \<Rightarrow> jsstring option" where
  "wrapRepoSectionOutput repoName output' =
     (case encodeURIComponent repoName of
        None \<Rightarrow> None
      | Some encodedRepo \<Rightarrow>
          (let body = trim output' in
           if body = [] then
             Some (HAPI_REPO_SECTION_PREFIX @ encodedRepo @ NL @ HAPI_REPO_SECTION_END)
           else
             Some (HAPI_REPO_SECTION_PREFIX @ encodedRepo @ NL @ body @ NL @
                   HAPI_REPO_SECTION_END)))"

text \<open>The variables of \<open>splitRepoSections\<close> that its loop and its closure change.\<close>

record SplitState =
  sections :: "RepoScopedOutput list"
  currentRepo :: "jsstring option"
  currentLines :: "jsstring list"
  hasMarkers :: bool

definition flushCurrentSection :: "SplitState \<Rightarrow> SplitState" where
  "flushCurrentSection st =
     (case currentRepo st of
        None \<Rightarrow> st
      | Some r \<Rightarrow>
          st\<lparr>sections := sections st @ [\<lparr>repo = Some r, outputText = trim (joinWith NL (currentLines st))\<rparr>],
             currentRepo := None,
             currentLines := []\<rparr>)"

text \<open>One turn of the loop over the lines.\<close>

definition splitStep :: "SplitState \<Rightarrow> jsstring \<Rightarrow> SplitState" where
  "splitStep st line =
     (if startsWith line HAPI_REPO_SECTION_PREFIX then
        (let st1 = flushCurrentSection (st\<lparr>hasMarkers := True\<rparr>);
             encodedRepo = trim (drop (length HAPI_REPO_SECTION_PREFIX) line)
         in st1\<lparr>currentRepo := Some (decodeRepoSectionName encodedRepo), currentLines := []\<rparr>)
      else if trim line = HAPI_REPO_SECTION_END then
        flushCurrentSection (st\<lparr>hasMarkers := True\<rparr>)
      else if currentRepo st \<noteq> None then st\<lparr>currentLines := currentLines st @ [line]\<rparr>
      else if \<not> hasMarkers st then st\<lparr>currentLines := currentLines st @ [line]\<rparr>
      else st)"

definition splitInit :: SplitState where
  "splitInit = \<lparr>sections = [], currentRepo = None, currentLines = [], hasMarkers = False\<rparr>"

definition splitRepoSections :: "jsstring \<Rightarrow> RepoScopedOutput list" where
  "splitRepoSections rawOutput =
     (let st = foldl splitStep splitInit (splitOn 10 rawOutput) in
      if hasMarkers st then sections (flushCurrentSection st)
      else [\<lparr>repo = None, outputText = trim rawOutput\<rparr>])"

text \<open>A line that the loop treats as a marker: a start marker or an end marker.\<close>

definition isMarkerLine :: "jsstring \<Rightarrow> bool" where
  "isMarkerLine line \<longleftrightarrow>
     startsWith line HAPI_REPO_SECTION_PREFIX \<or> trim line = HAPI_REPO_SECTION_END"

text \<open>Inputs for the examples: a status text with no marker, and a framed text whose
  last section is not closed.\<close>

definition exLegacyStatus :: jsstring where
  "exLegacyStatus = str ''# branch.head main'' @ NL @ str ''? new-file.ts''"

definition exUnterminated :: jsstring where
  "exUnterminated =
     str ''@@HAPI_REPO repo-a'' @ NL @ str ''? a.ts'' @ NL @ str ''@@HAPI_REPO_END'' @ NL @
     str ''@@HAPI_REPO my%20repo'' @ NL @ str '' ? b.ts '' @ NL @ str ''? c.ts''"

definition exWrapBody :: jsstring where
  "exWrapBody = str '' ? a.ts'' @ NL @ str ''? b.ts '' @ NL"

definition exMarkerBody :: jsstring where
  "exMarkerBody = str ''x'' @ NL @ str ''@@HAPI_REPO_END'' @ NL @ str ''y''"

lemmas string_defs = str_def NL_def startsWith_def endsWith_def trim_def trimStart_def
  trimEnd_def isWhiteSpace_def

lemmas uri_defs = decodeURIComponent_def hexVal_def isContinuation_def utf16Units_def
  utf8Octets_def hexDigit_def pctOctet_def pctEscape_def isUnreserved_def
  isLeadSurrogate_def isTrailSurrogate_def

lemmas framing_defs = HAPI_REPO_SECTION_PREFIX_def HAPI_REPO_SECTION_END_def
  isMarkerLine_def decodeRepoSectionName_def flushCurrentSection_def splitStep_def
  splitInit_def

section \<open>Legacy mode of the splitter\<close>

lemma splitStep_plain:
  "\<not> isMarkerLine line \<Longrightarrow> \<not> hasMarkers st \<Longrightarrow> hasMarkers (splitStep st line) = False"
  by (simp add: splitStep_def isMarkerLine_def)

lemma foldl_splitStep_plain:
  "list_all (\<lambda>l. \<not> isMarkerLine l) ls \<Longrightarrow> \<not> hasMarkers st \<Longrightarrow>
   \<not> hasMarkers (foldl splitStep st ls)"
  by (induction ls arbitrary: st) (simp_all add: splitStep_plain)

text \<open>
  C6. A text none of whose lines is a start marker or an end marker splits into
  exactly one section, with no repository name, whose body is the whole text trimmed.
\<close>

theorem split_legacy_mode:
  "list_all (\<lambda>l. \<not> isMarkerLine l) (splitOn 10 rawOutput) \<Longrightarrow>
   splitRepoSections rawOutput = [\<lparr>repo = None, outputText = trim rawOutput\<rparr>]"
  using foldl_splitStep_plain [of "splitOn 10 rawOutput" splitInit]
  by (simp add: splitRepoSections_def splitInit_def Let_def)


theorem split_legacy_mode_witness:
  "list_all (\<lambda>l. \<not> isMarkerLine l) (splitOn 10 exLegacyStatus) \<and>
   splitRepoSections exLegacyStatus =
     [\<lparr>repo = None, outputText = str ''# branch.head main'' @ NL @ str ''? new-file.ts''\<rparr>]"
proof -
  have h: "list_all (\<lambda>l. \<not> isMarkerLine l) (splitOn 10 exLegacyStatus)"
    by (simp add: exLegacyStatus_def string_defs framing_defs)
  have t: "trim exLegacyStatus = str ''# branch.head main'' @ NL @ str ''? new-file.ts''"
    by (simp add: exLegacyStatus_def string_defs)
  show ?thesis
    using h split_legacy_mode [OF h] by (simp add: t)
qed

section \<open>A section left open at the end of the text\<close>

lemma foldl_splitStep_body:
  "list_all (\<lambda>l. \<not> isMarkerLine l) ls \<Longrightarrow> currentRepo st = Some r \<Longrightarrow>
   foldl splitStep st ls = st\<lparr>currentLines := currentLines st @ ls\<rparr>"
proof (induction ls arbitrary: st)
  case Nil
  then show ?case by simp
next
  case (Cons l ls)
  have step: "splitStep st l = st\<lparr>currentLines := currentLines st @ [l]\<rparr>"
    using Cons.prems by (simp add: splitStep_def isMarkerLine_def)
  show ?case
    using Cons.prems Cons.IH [of "st\<lparr>currentLines := currentLines st @ [l]\<rparr>"]
    by (simp add: step)
qed

lemma sections_flush_hasMarkers:
  "sections (flushCurrentSection (st\<lparr>hasMarkers := b\<rparr>)) = sections (flushCurrentSection st)"
  by (simp add: flushCurrentSection_def split: option.splits)

text \<open>
  C10. When the lines of the text are \<open>pre\<close>, then a start marker, then lines \<open>body\<close>
  none of which is a marker, the last section of the result is the one the marker
  opened: its name is the decoded name of the marker and its body is \<open>body\<close>, joined
  and trimmed. The sections before it are those of \<open>pre\<close>. So a section that no end
  marker closes is flushed at the end of the text.
\<close>

theorem split_unterminated_section:
  assumes lines: "splitOn 10 rawOutput = pre @ [marker] @ body"
    and marker: "startsWith marker HAPI_REPO_SECTION_PREFIX"
    and body: "list_all (\<lambda>l. \<not> isMarkerLine l) body"
  shows "splitRepoSections rawOutput =
           sections (flushCurrentSection (foldl splitStep splitInit pre)) @
           [\<lparr>repo = Some (decodeRepoSectionName
                (trim (drop (length HAPI_REPO_SECTION_PREFIX) marker))),
             outputText = trim (joinWith NL body)\<rparr>]"
proof -
  define s where "s = foldl splitStep splitInit pre"
  define name where
    "name = decodeRepoSectionName (trim (drop (length HAPI_REPO_SECTION_PREFIX) marker))"
  define s1 where
    "s1 = (flushCurrentSection (s\<lparr>hasMarkers := True\<rparr>))\<lparr>currentRepo := Some name, currentLines := []\<rparr>"
  have step: "splitStep s marker = s1"
    using marker by (simp add: splitStep_def s1_def name_def Let_def)
  have hm: "hasMarkers s1"
    by (simp add: s1_def flushCurrentSection_def split: option.splits)
  have cr: "currentRepo s1 = Some name" by (simp add: s1_def)
  have cl: "currentLines s1 = []" by (simp add: s1_def)
  have sec: "sections s1 = sections (flushCurrentSection s)"
    by (simp add: s1_def sections_flush_hasMarkers)
  have fin: "foldl splitStep splitInit (splitOn 10 rawOutput) = s1\<lparr>currentLines := body\<rparr>"
    using foldl_splitStep_body [OF body cr] by (simp add: lines s_def [symmetric] step cl)
  show ?thesis
    unfolding splitRepoSections_def fin Let_def
    using hm cr sec by (simp add: flushCurrentSection_def s_def name_def)
qed

theorem split_unterminated_section_witness:
  "splitRepoSections exUnterminated =
     [\<lparr>repo = Some (str ''repo-a''), outputText = str ''? a.ts''\<rparr>,
      \<lparr>repo = Some (str ''my repo''), outputText = str ''? b.ts '' @ NL @ str ''? c.ts''\<rparr>]"
proof -
  have lines: "splitOn 10 exUnterminated =
      [str ''@@HAPI_REPO repo-a'', str ''? a.ts'', str ''@@HAPI_REPO_END''] @
      [str ''@@HAPI_REPO my%20repo''] @ [str '' ? b.ts '', str ''? c.ts'']"
    by (simp add: exUnterminated_def string_defs)
  have marker: "startsWith (str ''@@HAPI_REPO my%20repo'') HAPI_REPO_SECTION_PREFIX"
    by (simp add: string_defs framing_defs)
  have body: "list_all (\<lambda>l. \<not> isMarkerLine l) [str '' ? b.ts '', str ''? c.ts'']"
    by (simp add: string_defs framing_defs)
  show ?thesis
    using split_unterminated_section [OF lines marker body]
    by (simp add: string_defs framing_defs uri_defs)
qed


section \<open>Percent encoding and decoding are inverse\<close>

lemma hexVal_hexDigit: "d < 16 \<Longrightarrow> hexVal (hexDigit d) = Some d"
  by (auto simp: hexVal_def hexDigit_def)

lemma hexDigit_not_ws: "d < 16 \<Longrightarrow> \<not> isWhiteSpace (hexDigit d)"
  by (auto simp: isWhiteSpace_def hexDigit_def)

lemma uriItems_pctOctet:
  "b < 256 \<Longrightarrow> uriItems (pctOctet b @ r) = map_option (\<lambda>ts. Octet b # ts) (uriItems r)"
proof -
  assume b: "b < 256"
  then have h: "b div 16 < 16" "b mod 16 < 16" by auto
  have e: "16 * (b div 16) + b mod 16 = b" by simp
  show ?thesis
    by (simp add: pctOctet_def hexVal_hexDigit h e)
qed

lemma uriItems_pctOctets:
  "list_all (\<lambda>b. b < 256) bs \<Longrightarrow>
   uriItems (concat (map pctOctet bs) @ r) = map_option (\<lambda>ts. map Octet bs @ ts) (uriItems r)"
  by (induction bs) (cases "uriItems r"; simp add: uriItems_pctOctet)+

lemma utf8Octets_bytes: "cp < 0x110000 \<Longrightarrow> list_all (\<lambda>b. b < 256) (utf8Octets cp)"
  by (auto simp: utf8Octets_def)

lemma pctOctet_not_ws: "b < 256 \<Longrightarrow> list_all (\<lambda>c. \<not> isWhiteSpace c) (pctOctet b)"
  using hexDigit_not_ws [of "b div 16"] hexDigit_not_ws [of "b mod 16"]
  by (simp add: pctOctet_def) (simp add: isWhiteSpace_def)

lemma pctEscape_not_ws: "cp < 0x110000 \<Longrightarrow> list_all (\<lambda>c. \<not> isWhiteSpace c) (pctEscape cp)"
proof -
  assume "cp < 0x110000"
  then have "\<forall>b\<in>set (utf8Octets cp). b < 256"
    using utf8Octets_bytes [of cp] by (simp add: list_all_iff)
  then have "\<forall>b\<in>set (utf8Octets cp). \<forall>c\<in>set (pctOctet b). \<not> isWhiteSpace c"
    using pctOctet_not_ws by (auto simp: list_all_iff)
  then show ?thesis by (simp add: pctEscape_def list_all_iff)
qed

lemma split3: "(cp::nat) div 4096 * 4096 + (cp div 64) mod 64 * 64 + cp mod 64 = cp"
proof -
  define q where "q = cp div 64"
  define d where "d = q div 64"
  have 1: "cp = q * 64 + cp mod 64" unfolding q_def by simp
  have 2: "q = d * 64 + q mod 64" unfolding d_def by simp
  have 3: "cp div 4096 = d" unfolding d_def q_def by (simp add: div_mult2_eq)
  show ?thesis unfolding 3 q_def [symmetric] using 1 2 by linarith
qed

lemma split4:
  "(cp::nat) div 262144 * 262144 + (cp div 4096) mod 64 * 4096 + (cp div 64) mod 64 * 64 +
   cp mod 64 = cp"
proof -
  define q where "q = cp div 64"
  define d where "d = q div 64"
  define e where "e = d div 64"
  have 1: "cp = q * 64 + cp mod 64" unfolding q_def by simp
  have 2: "q = d * 64 + q mod 64" unfolding d_def by simp
  have 3: "d = e * 64 + d mod 64" unfolding e_def by simp
  have 4: "cp div 4096 = d" unfolding d_def q_def by (simp add: div_mult2_eq)
  have 5: "cp div 262144 = e" unfolding e_def d_def q_def by (simp add: div_mult2_eq)
  show ?thesis unfolding 4 5 q_def [symmetric] using 1 2 3 by linarith
qed

lemma mod64_le: "(n::nat) mod 64 \<le> 63"
  by (simp add: less_Suc_eq_le [symmetric])

lemma assemble_utf8_1:
  "cp < 0x80 \<Longrightarrow> assembleItems (map Octet (utf8Octets cp) @ ts) =
         map_option (\<lambda>u. utf16Units cp @ u) (assembleItems ts)"
  by (simp add: utf8Octets_def utf16Units_def)

lemma assemble_utf8_2:
  assumes "0x80 \<le> cp" "cp < 0x800"
  shows "assembleItems (map Octet (utf8Octets cp) @ ts) =
         map_option (\<lambda>u. utf16Units cp @ u) (assembleItems ts)"
proof -
  have b: "cp div 64 < 32" "2 \<le> cp div 64" using assms by arith+
  have o: "utf8Octets cp = [0xC0 + cp div 64, 0x80 + cp mod 64]"
    using assms by (simp add: utf8Octets_def)
  have v: "cp div 64 * 64 + cp mod 64 = cp" by simp
  show ?thesis
    unfolding o using b assms mod64_le [of cp]
    by (simp add: isContinuation_def v Let_def)
qed

lemma assemble_utf8_3:
  assumes "0x800 \<le> cp" "cp < 0x10000" "\<not> (0xD800 \<le> cp \<and> cp \<le> 0xDFFF)"
  shows "assembleItems (map Octet (utf8Octets cp) @ ts) =
         map_option (\<lambda>u. utf16Units cp @ u) (assembleItems ts)"
proof -
  have b: "cp div 4096 < 16" using assms by arith
  have o: "utf8Octets cp = [0xE0 + cp div 4096, 0x80 + (cp div 64) mod 64, 0x80 + cp mod 64]"
    using assms by (simp add: utf8Octets_def)
  show ?thesis
    unfolding o using b assms mod64_le [of cp] mod64_le [of "cp div 64"]
    by (simp add: isContinuation_def split3 Let_def)
qed

lemma assemble_utf8_4:
  assumes "0x10000 \<le> cp" "cp < 0x110000"
  shows "assembleItems (map Octet (utf8Octets cp) @ ts) =
         map_option (\<lambda>u. utf16Units cp @ u) (assembleItems ts)"
proof -
  have b: "cp div 262144 < 8" using assms by arith
  have o: "utf8Octets cp = [0xF0 + cp div 262144, 0x80 + (cp div 4096) mod 64,
         0x80 + (cp div 64) mod 64, 0x80 + cp mod 64]"
    using assms by (simp add: utf8Octets_def)
  show ?thesis
    unfolding o using b assms mod64_le [of cp] mod64_le [of "cp div 64"]
      mod64_le [of "cp div 4096"]
    by (simp add: isContinuation_def split4 Let_def)
qed


lemma assemble_utf8:
  assumes "cp < 0x110000" "\<not> (0xD800 \<le> cp \<and> cp \<le> 0xDFFF)"
  shows "assembleItems (map Octet (utf8Octets cp) @ ts) =
         map_option (\<lambda>u. utf16Units cp @ u) (assembleItems ts)"
proof -
  consider "cp < 0x80" | "0x80 \<le> cp" "cp < 0x800" | "0x800 \<le> cp" "cp < 0x10000"
    | "0x10000 \<le> cp" by linarith
  then show ?thesis
    using assms
    by cases (simp_all only: assemble_utf8_1 assemble_utf8_2 assemble_utf8_3 assemble_utf8_4 not_False_eq_True)
qed

text \<open>What decoding an escaped code point gives back.\<close>

lemma decode_pctEscape:
  assumes cp: "cp < 0x110000" "\<not> (0xD800 \<le> cp \<and> cp \<le> 0xDFFF)"
    and r: "uriItems e = Some ts" "assembleItems ts = Some s"
  shows "\<exists>ts'. uriItems (pctEscape cp @ e) = Some ts' \<and>
               assembleItems ts' = Some (utf16Units cp @ s)"
  using uriItems_pctOctets [OF utf8Octets_bytes [OF cp(1)], of e] assemble_utf8 [OF cp, of ts] r
  by (simp add: pctEscape_def)

lemma surrogate_pair_units:
  assumes "isLeadSurrogate c" "isTrailSurrogate d"
  shows "utf16Units ((c - 0xD800) * 0x400 + (d - 0xDC00) + 0x10000) = [c, d]"
proof -
  define a where "a = c - 0xD800"
  define b where "b = d - 0xDC00"
  have c: "c = 0xD800 + a" and d: "d = 0xDC00 + b" and b: "b < 0x400"
    using assms unfolding a_def b_def isLeadSurrogate_def isTrailSurrogate_def by arith+
  show ?thesis
    using b by (simp add: utf16Units_def c d)
qed

lemma surrogate_pair_range:
  assumes "isLeadSurrogate c" "isTrailSurrogate d"
  shows "(c - 0xD800) * 0x400 + (d - 0xDC00) + 0x10000 < 0x110000"
    and "\<not> (0xD800 \<le> (c - 0xD800) * 0x400 + (d - 0xDC00) + 0x10000 \<and>
            (c - 0xD800) * 0x400 + (d - 0xDC00) + 0x10000 \<le> 0xDFFF)"
  using assms unfolding isLeadSurrogate_def isTrailSurrogate_def by arith+

lemma unreserved_facts:
  "isUnreserved c \<Longrightarrow> c \<noteq> 0x25 \<and> \<not> isWhiteSpace c \<and> \<not> isLeadSurrogate c \<and> \<not> isTrailSurrogate c"
  by (auto simp: isUnreserved_def isWhiteSpace_def isLeadSurrogate_def isTrailSurrogate_def)

text \<open>Encoding a well-formed string succeeds, its result has no white space, and
  decoding the result gives the string back.\<close>

lemma encode_decode:
  "wellFormedUTF16 s \<Longrightarrow>
   \<exists>e ts. encodeURIComponent s = Some e \<and> list_all (\<lambda>c. \<not> isWhiteSpace c) e \<and>
          uriItems e = Some ts \<and> assembleItems ts = Some s"
proof (induction s rule: wellFormedUTF16.induct)
  case 1
  then show ?case by simp
next
  case (2 c cs)
  show ?case
  proof (cases "isUnreserved c")
    case True
    note u = unreserved_facts [OF True]
    from 2 u obtain e ts where
      "encodeURIComponent cs = Some e" "list_all (\<lambda>c. \<not> isWhiteSpace c) e"
      "uriItems e = Some ts" "assembleItems ts = Some cs"
      by auto
    then show ?thesis using True u by simp
  next
    case False
    from "2.prems" have nt: "\<not> isTrailSurrogate c" and lt: "c < 0x10000"
      by (auto split: if_splits)
    show ?thesis
    proof (cases "isLeadSurrogate c")
      case True
      from "2.prems" nt True obtain d ds where cs: "cs = d # ds" and d: "isTrailSurrogate d"
        and wf: "wellFormedUTF16 ds"
        by (auto split: list.splits)
      from "2.IH"(1) [OF nt True cs] d wf obtain e ts where
        e: "encodeURIComponent ds = Some e" "list_all (\<lambda>c. \<not> isWhiteSpace c) e"
        "uriItems e = Some ts" "assembleItems ts = Some ds"
        by auto
      define cp where "cp = (c - 0xD800) * 0x400 + (d - 0xDC00) + 0x10000"
      have r: "cp < 0x110000" "\<not> (0xD800 \<le> cp \<and> cp \<le> 0xDFFF)"
        using surrogate_pair_range [OF True d] by (simp_all add: cp_def)
      have un: "utf16Units cp = [c, d]"
        using surrogate_pair_units [OF True d] by (simp add: cp_def)
      from decode_pctEscape [OF r e(3,4)] obtain ts' where
        "uriItems (pctEscape cp @ e) = Some ts'" "assembleItems ts' = Some ([c, d] @ ds)"
        by (auto simp: un)
      then show ?thesis
        using False nt True d e pctEscape_not_ws [OF r(1)]
        by (simp add: cs cp_def)
    next
      case nl: False
      from "2.prems" nt nl have wf: "wellFormedUTF16 cs" by simp
      from "2.IH"(2) [OF nt nl] wf obtain e ts where
        e: "encodeURIComponent cs = Some e" "list_all (\<lambda>c. \<not> isWhiteSpace c) e"
        "uriItems e = Some ts" "assembleItems ts = Some cs"
        by auto
      have r: "c < 0x110000" "\<not> (0xD800 \<le> c \<and> c \<le> 0xDFFF)"
        using lt nt nl by (auto simp: isLeadSurrogate_def isTrailSurrogate_def)
      have un: "utf16Units c = [c]" using lt by (simp add: utf16Units_def)
      from decode_pctEscape [OF r e(3,4)] obtain ts' where
        "uriItems (pctEscape c @ e) = Some ts'" "assembleItems ts' = Some ([c] @ cs)"
        by (auto simp: un)
      then show ?thesis
        using False nt nl e pctEscape_not_ws [OF r(1)]
        by simp
    qed
  qed
qed

lemma encode_decode_roundtrip:
  assumes "wellFormedUTF16 s"
  obtains e where "encodeURIComponent s = Some e" "list_all (\<lambda>c. \<not> isWhiteSpace c) e"
    "decodeURIComponent e = Some s"
  using encode_decode [OF assms] by (auto simp: decodeURIComponent_def)



section \<open>Wrapping, then splitting\<close>

lemma splitOn_not_Nil: "splitOn sep s \<noteq> []"
  by (induction s) (auto split: list.splits)

lemma splitOn_append_sep: "splitOn sep (xs @ sep # ys) = splitOn sep xs @ splitOn sep ys"
proof (induction xs)
  case Nil
  then show ?case by simp
next
  case (Cons c xs)
  obtain l ls where s: "splitOn sep xs = l # ls"
    using splitOn_not_Nil [of sep xs] by (cases "splitOn sep xs") auto
  show ?case using Cons s by simp
qed

lemma splitOn_no_sep: "sep \<notin> set xs \<Longrightarrow> splitOn sep xs = [xs]"
  by (induction xs) auto

lemma joinWith_Cons: "ls \<noteq> [] \<Longrightarrow> joinWith sep (l # ls) = l @ sep @ joinWith sep ls"
  by (cases ls) auto

lemma joinWith_splitOn: "joinWith [sep] (splitOn sep xs) = xs"
proof (induction xs)
  case Nil
  then show ?case by simp
next
  case (Cons c xs)
  obtain l ls where s: "splitOn sep xs = l # ls"
    using splitOn_not_Nil [of sep xs] by (cases "splitOn sep xs") auto
  show ?case
  proof (cases "c = sep")
    case True
    then show ?thesis using Cons by (simp add: joinWith_Cons splitOn_not_Nil)
  next
    case False
    then show ?thesis using Cons s by (cases ls) auto
  qed
qed

lemma trimStart_idem: "trimStart (trimStart s) = trimStart s"
  by (simp add: trimStart_def)

lemma trimEnd_idem: "trimEnd (trimEnd s) = trimEnd s"
  by (simp add: trimEnd_def)

lemma trimStart_self: "s = [] \<or> \<not> isWhiteSpace (hd s) \<Longrightarrow> trimStart s = s"
  by (cases s) (auto simp: trimStart_def)

lemma trimEnd_self: "s = [] \<or> \<not> isWhiteSpace (last s) \<Longrightarrow> trimEnd s = s"
  by (cases s rule: rev_cases) (auto simp: trimEnd_def)

lemma trimStart_hd: "trimStart s \<noteq> [] \<Longrightarrow> \<not> isWhiteSpace (hd (trimStart s))"
  unfolding trimStart_def by (rule hd_dropWhile)

lemma trimEnd_prefix: "prefix (trimEnd s) s"
proof -
  have "suffix (dropWhile isWhiteSpace (rev s)) (rev s)"
    by (rule suffix_dropWhile)
  then show ?thesis
    unfolding trimEnd_def by (metis rev_rev_ident suffix_to_prefix)
qed

lemma trimEnd_last: "trimEnd s \<noteq> [] \<Longrightarrow> \<not> isWhiteSpace (last (trimEnd s))"
  unfolding trimEnd_def by (simp add: last_rev hd_dropWhile)

lemma trim_hd: "trim s \<noteq> [] \<Longrightarrow> \<not> isWhiteSpace (hd (trim s))"
proof -
  assume n: "trim s \<noteq> []"
  have p: "prefix (trim s) (trimStart s)" unfolding trim_def by (rule trimEnd_prefix)
  then have "hd (trim s) = hd (trimStart s)" using n by (auto simp: prefix_def)
  moreover have "trimStart s \<noteq> []" using p n by auto
  ultimately show ?thesis using trimStart_hd by simp
qed

lemma trim_last: "trim s \<noteq> [] \<Longrightarrow> \<not> isWhiteSpace (last (trim s))"
  unfolding trim_def by (rule trimEnd_last)

lemma trim_self: "s = [] \<or> (\<not> isWhiteSpace (hd s) \<and> \<not> isWhiteSpace (last s)) \<Longrightarrow> trim s = s"
  by (auto simp: trim_def trimStart_self trimEnd_self)

lemma trim_Nil: "trim [] = []"
  by (simp add: trim_def trimStart_def trimEnd_def)

lemma trim_idem: "trim (trim s) = trim s"
  by (rule trim_self) (use trim_hd trim_last in blast)

lemma trim_no_ws: "list_all (\<lambda>c. \<not> isWhiteSpace c) s \<Longrightarrow> trim s = s"
  by (rule trim_self) (cases s; auto simp: list_all_iff)


lemma framing_consts:
  "10 \<notin> set HAPI_REPO_SECTION_PREFIX" "10 \<notin> set HAPI_REPO_SECTION_END"
  "\<not> startsWith HAPI_REPO_SECTION_END HAPI_REPO_SECTION_PREFIX"
  "trim HAPI_REPO_SECTION_END = HAPI_REPO_SECTION_END"
  by (simp_all add: string_defs HAPI_REPO_SECTION_PREFIX_def HAPI_REPO_SECTION_END_def)

lemma startsWith_append: "startsWith (p @ s) p"
  by (simp add: startsWith_def)

lemma no_ws_no_newline: "list_all (\<lambda>c. \<not> isWhiteSpace c) e \<Longrightarrow> 10 \<notin> set e"
  by (auto simp: list_all_iff isWhiteSpace_def)

lemma splitOn_framed:
  assumes "10 \<notin> set e"
  shows "splitOn 10 (HAPI_REPO_SECTION_PREFIX @ e @ NL @ body @ NL @ HAPI_REPO_SECTION_END) =
           [HAPI_REPO_SECTION_PREFIX @ e] @ splitOn 10 body @ [HAPI_REPO_SECTION_END]"
    and "splitOn 10 (HAPI_REPO_SECTION_PREFIX @ e @ NL @ HAPI_REPO_SECTION_END) =
           [HAPI_REPO_SECTION_PREFIX @ e] @ [] @ [HAPI_REPO_SECTION_END]"
proof -
  have p: "splitOn 10 (HAPI_REPO_SECTION_PREFIX @ e) = [HAPI_REPO_SECTION_PREFIX @ e]"
    using assms framing_consts(1) by (simp add: splitOn_no_sep)
  have q: "splitOn 10 HAPI_REPO_SECTION_END = [HAPI_REPO_SECTION_END]"
    using framing_consts(2) by (simp add: splitOn_no_sep)
  have "splitOn 10 ((HAPI_REPO_SECTION_PREFIX @ e) @ 10 # (body @ 10 # HAPI_REPO_SECTION_END)) =
        [HAPI_REPO_SECTION_PREFIX @ e] @ splitOn 10 body @ [HAPI_REPO_SECTION_END]"
    by (simp only: splitOn_append_sep p q)
  then show "splitOn 10 (HAPI_REPO_SECTION_PREFIX @ e @ NL @ body @ NL @ HAPI_REPO_SECTION_END) =
           [HAPI_REPO_SECTION_PREFIX @ e] @ splitOn 10 body @ [HAPI_REPO_SECTION_END]"
    by (simp add: NL_def)
  have "splitOn 10 ((HAPI_REPO_SECTION_PREFIX @ e) @ 10 # HAPI_REPO_SECTION_END) =
        [HAPI_REPO_SECTION_PREFIX @ e] @ [HAPI_REPO_SECTION_END]"
    by (simp only: splitOn_append_sep p q)
  then show "splitOn 10 (HAPI_REPO_SECTION_PREFIX @ e @ NL @ HAPI_REPO_SECTION_END) =
           [HAPI_REPO_SECTION_PREFIX @ e] @ [] @ [HAPI_REPO_SECTION_END]"
    by (simp add: NL_def)
qed

text \<open>The loop on one framed section: a start marker, lines that are no markers, the
  end marker.\<close>

lemma foldl_splitStep_framed:
  assumes ls: "list_all (\<lambda>l. \<not> isMarkerLine l) ls"
    and e: "list_all (\<lambda>c. \<not> isWhiteSpace c) e"
  shows "foldl splitStep splitInit
           ([HAPI_REPO_SECTION_PREFIX @ e] @ ls @ [HAPI_REPO_SECTION_END]) =
         \<lparr>sections = [\<lparr>repo = Some (decodeRepoSectionName e),
                        outputText = trim (joinWith NL ls)\<rparr>],
          currentRepo = None, currentLines = [], hasMarkers = True\<rparr>"
proof -
  define s1 where
    "s1 = \<lparr>sections = [], currentRepo = Some (decodeRepoSectionName e),
           currentLines = [], hasMarkers = True\<rparr>"
  have 1: "splitStep splitInit (HAPI_REPO_SECTION_PREFIX @ e) = s1"
    using trim_no_ws [OF e]
    by (simp add: splitStep_def startsWith_append splitInit_def flushCurrentSection_def s1_def)
  have 2: "foldl splitStep s1 ls = s1\<lparr>currentLines := ls\<rparr>"
    using foldl_splitStep_body [OF ls, of s1] by (simp add: s1_def)
  have 3: "splitStep (s1\<lparr>currentLines := ls\<rparr>) HAPI_REPO_SECTION_END =
        \<lparr>sections = [\<lparr>repo = Some (decodeRepoSectionName e),
                        outputText = trim (joinWith NL ls)\<rparr>],
          currentRepo = None, currentLines = [], hasMarkers = True\<rparr>"
    using framing_consts(3,4)
    by (simp add: splitStep_def flushCurrentSection_def s1_def)
  show ?thesis by (simp add: 1 2 3)
qed

text \<open>
  C1 (as amended). For every well-formed repository name and every output whose
  trimmed text has no line that is a start marker or an end marker, wrapping
  succeeds, and splitting the wrapped text gives exactly one section: its name is the
  repository name and its body is the output trimmed. (The body of a wrapped text
  is not escaped, so a marker line inside it is read as a marker; and a name with a
  lone surrogate makes \<open>encodeURIComponent\<close> throw.)
\<close>

theorem wrap_split_roundtrip:
  assumes name: "wellFormedUTF16 repoName"
    and body: "list_all (\<lambda>l. \<not> isMarkerLine l) (splitOn 10 (trim output'))"
  shows "\<exists>framed. wrapRepoSectionOutput repoName output' = Some framed \<and>
           splitRepoSections framed = [\<lparr>repo = Some repoName, outputText = trim output'\<rparr>]"
proof -
  from name obtain e where e: "encodeURIComponent repoName = Some e"
    "list_all (\<lambda>c. \<not> isWhiteSpace c) e" "decodeURIComponent e = Some repoName"
    by (rule encode_decode_roundtrip)
  have d: "decodeRepoSectionName e = repoName"
    by (simp add: decodeRepoSectionName_def e(3))
  have nl: "10 \<notin> set e" using e(2) by (rule no_ws_no_newline)
  show ?thesis
  proof (cases "trim output' = []")
    case True
    have w: "wrapRepoSectionOutput repoName output' =
        Some (HAPI_REPO_SECTION_PREFIX @ e @ NL @ HAPI_REPO_SECTION_END)"
      by (simp add: wrapRepoSectionOutput_def e(1) True)
    have "splitRepoSections (HAPI_REPO_SECTION_PREFIX @ e @ NL @ HAPI_REPO_SECTION_END) =
        [\<lparr>repo = Some repoName, outputText = trim output'\<rparr>]"
      unfolding splitRepoSections_def splitOn_framed(2) [OF nl]
      using foldl_splitStep_framed [OF _ e(2), of "[]"]
      by (simp add: d True flushCurrentSection_def trim_Nil)
    then show ?thesis using w by simp
  next
    case False
    have w: "wrapRepoSectionOutput repoName output' =
        Some (HAPI_REPO_SECTION_PREFIX @ e @ NL @ trim output' @ NL @ HAPI_REPO_SECTION_END)"
      by (simp add: wrapRepoSectionOutput_def e(1) False)
    have j: "joinWith NL (splitOn 10 (trim output')) = trim output'"
      by (simp add: NL_def joinWith_splitOn)
    have "splitRepoSections
            (HAPI_REPO_SECTION_PREFIX @ e @ NL @ trim output' @ NL @ HAPI_REPO_SECTION_END) =
        [\<lparr>repo = Some repoName, outputText = trim output'\<rparr>]"
      unfolding splitRepoSections_def splitOn_framed(1) [OF nl]
      using foldl_splitStep_framed [OF body e(2)]
      by (simp add: d j trim_idem flushCurrentSection_def)
    then show ?thesis using w by simp
  qed
qed


theorem wrap_split_roundtrip_witness:
  "wrapRepoSectionOutput (str ''my repo/sub'') exWrapBody =
     Some (str ''@@HAPI_REPO my%20repo%2Fsub'' @ NL @ str ''? a.ts'' @ NL @ str ''? b.ts'' @ NL @
           str ''@@HAPI_REPO_END'') \<and>
   splitRepoSections (str ''@@HAPI_REPO my%20repo%2Fsub'' @ NL @ str ''? a.ts'' @ NL @
       str ''? b.ts'' @ NL @ str ''@@HAPI_REPO_END'') =
     [\<lparr>repo = Some (str ''my repo/sub''), outputText = str ''? a.ts'' @ NL @ str ''? b.ts''\<rparr>]"
proof -
  have name: "wellFormedUTF16 (str ''my repo/sub'')"
    by (simp add: str_def isLeadSurrogate_def isTrailSurrogate_def)
  have t: "trim exWrapBody = str ''? a.ts'' @ NL @ str ''? b.ts''"
    by (simp add: exWrapBody_def string_defs)
  have body: "list_all (\<lambda>l. \<not> isMarkerLine l) (splitOn 10 (trim exWrapBody))"
    unfolding t by (simp add: string_defs framing_defs)
  have w: "wrapRepoSectionOutput (str ''my repo/sub'') exWrapBody =
     Some (str ''@@HAPI_REPO my%20repo%2Fsub'' @ NL @ str ''? a.ts'' @ NL @ str ''? b.ts'' @ NL @
           str ''@@HAPI_REPO_END'')"
    unfolding wrapRepoSectionOutput_def t
    by (simp add: str_def NL_def uri_defs HAPI_REPO_SECTION_PREFIX_def HAPI_REPO_SECTION_END_def)
  show ?thesis
    using wrap_split_roundtrip [OF name body] by (simp add: w t)
qed

theorem wrap_split_counterexample:
  "wrapRepoSectionOutput (str ''repo'') exMarkerBody =
     Some (str ''@@HAPI_REPO repo'' @ NL @ exMarkerBody @ NL @ str ''@@HAPI_REPO_END'') \<and>
   splitRepoSections (str ''@@HAPI_REPO repo'' @ NL @ exMarkerBody @ NL @ str ''@@HAPI_REPO_END'') =
     [\<lparr>repo = Some (str ''repo''), outputText = str ''x''\<rparr>] \<and>
   trim exMarkerBody \<noteq> str ''x'' \<and>
   wrapRepoSectionOutput [0xD800] exMarkerBody = None"
proof -
  have t: "trim exMarkerBody = exMarkerBody"
    by (simp add: exMarkerBody_def string_defs)
  have w: "wrapRepoSectionOutput (str ''repo'') exMarkerBody =
     Some (str ''@@HAPI_REPO repo'' @ NL @ exMarkerBody @ NL @ str ''@@HAPI_REPO_END'')"
    unfolding wrapRepoSectionOutput_def t
    by (simp add: exMarkerBody_def str_def NL_def uri_defs HAPI_REPO_SECTION_PREFIX_def
        HAPI_REPO_SECTION_END_def)
  have s: "splitRepoSections
       (str ''@@HAPI_REPO repo'' @ NL @ exMarkerBody @ NL @ str ''@@HAPI_REPO_END'') =
     [\<lparr>repo = Some (str ''repo''), outputText = str ''x''\<rparr>]"
    by (simp add: splitRepoSections_def exMarkerBody_def string_defs framing_defs uri_defs)
  have n: "trim exMarkerBody \<noteq> str ''x''"
    unfolding t by (simp add: exMarkerBody_def str_def NL_def)
  have u: "wrapRepoSectionOutput [0xD800] exMarkerBody = None"
    by (simp add: wrapRepoSectionOutput_def isUnreserved_def isTrailSurrogate_def
        isLeadSurrogate_def)
  show ?thesis using w s n u by simp
qed



section \<open>Regular expressions of the parsers\<close>

text \<open>
  The regular expressions of the source are anchored at both ends, and each of their
  greedy parts is followed by a literal that the part cannot match (or by the end).
  So a match, when there is one, is found without backtracking, and each expression
  is the sequence of the matchers below. A matcher takes the text still to match and
  returns the groups it captured and the text left.
\<close>

type_synonym matcher = "jsstring \<Rightarrow> (jsstring list \<times> jsstring) option"

definition isLineTerminator :: "nat \<Rightarrow> bool" where
  "isLineTerminator c \<longleftrightarrow> c = 0x0A \<or> c = 0x0D \<or> c = 0x2028 \<or> c = 0x2029"

text \<open>\<open>.\<close> matches every code unit but a line terminator.\<close>

definition isDot :: "nat \<Rightarrow> bool" where
  "isDot c \<longleftrightarrow> \<not> isLineTerminator c"

definition isDigit :: "nat \<Rightarrow> bool" where
  "isDigit c \<longleftrightarrow> 0x30 \<le> c \<and> c \<le> 0x39"

definition isLowerHex :: "nat \<Rightarrow> bool" where
  "isLowerHex c \<longleftrightarrow> isDigit c \<or> (0x61 \<le> c \<and> c \<le> 0x66)"

definition andThen :: "matcher \<Rightarrow> matcher \<Rightarrow> matcher" where
  "andThen a b s =
     (case a s of
        None \<Rightarrow> None
      | Some (g1, r) \<Rightarrow> (case b r of None \<Rightarrow> None | Some (g2, r') \<Rightarrow> Some (g1 @ g2, r')))"

text \<open>A literal.\<close>

definition lit :: "string \<Rightarrow> matcher" where
  "lit p s = (if startsWith s (str p) then Some ([], drop (length p) s) else None)"

text \<open>\<open>(C{n})\<close>: a group of exactly \<open>n\<close> code units of the class \<open>C\<close>.\<close>

definition groupN :: "(nat \<Rightarrow> bool) \<Rightarrow> nat \<Rightarrow> matcher" where
  "groupN C n s =
     (if n \<le> length s \<and> list_all C (take n s) then Some ([take n s], drop n s) else None)"

text \<open>\<open>(C+)\<close>: a group of one or more code units of the class \<open>C\<close>, as many as there are.\<close>

definition groupPlus :: "(nat \<Rightarrow> bool) \<Rightarrow> matcher" where
  "groupPlus C s =
     (if takeWhile C s = [] then None else Some ([takeWhile C s], dropWhile C s))"

text \<open>\<open>(.+)$\<close> and \<open>(.*)$\<close>: all the text left, with no line terminator in it.\<close>

definition restPlus :: matcher where
  "restPlus s = (if s \<noteq> [] \<and> list_all isDot s then Some ([s], []) else None)"

definition restStar :: matcher where
  "restStar s = (if list_all isDot s then Some ([s], []) else None)"

text \<open>\<open>$\<close>: nothing is left.\<close>

definition atEnd :: matcher where
  "atEnd s = (if s = [] then Some ([], []) else None)"

text \<open>
  \<open>exec\<close> of an anchored expression: the array of the whole match (the line) and the
  groups, or \<open>None\<close> for \<open>null\<close>.
\<close>

definition exec :: "matcher \<Rightarrow> jsstring \<Rightarrow> jsstring list option" where
  "exec m line = (case m line of Some (gs, []) \<Rightarrow> Some (line # gs) | _ \<Rightarrow> None)"

definition BRANCH_OID_REGEX :: matcher where
  "BRANCH_OID_REGEX = andThen (lit ''# branch.oid '') restPlus"

definition BRANCH_HEAD_REGEX :: matcher where
  "BRANCH_HEAD_REGEX = andThen (lit ''# branch.head '') restPlus"

definition BRANCH_UPSTREAM_REGEX :: matcher where
  "BRANCH_UPSTREAM_REGEX = andThen (lit ''# branch.upstream '') restPlus"

definition BRANCH_AB_REGEX :: matcher where
  "BRANCH_AB_REGEX =
     andThen (lit ''# branch.ab +'') (andThen (groupPlus isDigit)
       (andThen (lit '' -'') (andThen (groupPlus isDigit) atEnd)))"

text \<open>The part \<open>(.)(.) (.{4}) \<close> that the three change records share.\<close>

definition xySub :: matcher where
  "xySub = andThen (groupN isDot 1) (andThen (groupN isDot 1) (andThen (lit '' '')
     (andThen (groupN isDot 4) (lit '' ''))))"

text \<open>\<open>(\d{6}) \<close> and \<open>([0-9a-f]+) \<close>.\<close>

definition modeField :: matcher where
  "modeField = andThen (groupN isDigit 6) (lit '' '')"

definition hashField :: matcher where
  "hashField = andThen (groupPlus isLowerHex) (lit '' '')"

definition ORDINARY_CHANGE_REGEX :: matcher where
  "ORDINARY_CHANGE_REGEX =
     andThen (lit ''1 '') (andThen xySub (andThen modeField (andThen modeField
       (andThen modeField (andThen hashField (andThen hashField restPlus))))))"

text \<open>
  \<open>([RC])(\d{1,3}) \<close>: the letter, then one to three digits and a blank.
\<close>

definition isRC :: "nat \<Rightarrow> bool" where
  "isRC c \<longleftrightarrow> c = 0x52 \<or> c = 0x43"

definition scoreDigits :: matcher where
  "scoreDigits s =
     (let d = takeWhile isDigit s in
      if 1 \<le> length d \<and> length d \<le> 3 then Some ([d], dropWhile isDigit s) else None)"

text \<open>
  \<open>(.+)\t(.+)$\<close>: the first group is greedy, so the text is cut at its last tab that
  has something after it and something before it.
\<close>

fun cutAtLastTab :: "jsstring \<Rightarrow> jsstring \<Rightarrow> (jsstring \<times> jsstring) option" where
  "cutAtLastTab before [] = None"
| "cutAtLastTab before (c # cs) =
     (case cutAtLastTab (before @ [c]) cs of
        Some r \<Rightarrow> Some r
      | None \<Rightarrow> if c = 0x09 \<and> before \<noteq> [] \<and> cs \<noteq> [] then Some (before, cs) else None)"

definition twoPaths :: matcher where
  "twoPaths s =
     (if list_all isDot s then
        (case cutAtLastTab [] s of None \<Rightarrow> None | Some (a, b) \<Rightarrow> Some ([a, b], []))
      else None)"

definition RENAME_COPY_REGEX :: matcher where
  "RENAME_COPY_REGEX =
     andThen (lit ''2 '') (andThen xySub (andThen modeField (andThen modeField
       (andThen modeField (andThen hashField (andThen hashField
         (andThen (groupN isRC 1) (andThen scoreDigits (andThen (lit '' '') twoPaths)))))))))"

definition UNMERGED_REGEX :: matcher where
  "UNMERGED_REGEX =
     andThen (lit ''u '') (andThen xySub (andThen modeField (andThen modeField
       (andThen modeField (andThen modeField (andThen hashField (andThen hashField
         (andThen hashField restPlus))))))))"

definition UNTRACKED_REGEX :: matcher where
  "UNTRACKED_REGEX = andThen (lit ''? '') restPlus"

definition IGNORED_REGEX :: matcher where
  "IGNORED_REGEX = andThen (lit ''! '') restPlus"

text \<open>\<open>(\d+|-)\t\<close>: digits or a dash, then a tab.\<close>

definition countField :: matcher where
  "countField s =
     (case s of
        [] \<Rightarrow> None
      | c # cs \<Rightarrow> if c = 0x2D then andThen (\<lambda>t. Some ([[0x2D]], t)) (lit [CHR 0x09]) cs
                 else andThen (groupPlus isDigit) (lit [CHR 0x09]) s)"

definition NUMSTAT_REGEX :: matcher where
  "NUMSTAT_REGEX = andThen countField (andThen countField restStar)"


section \<open>Numbers\<close>

text \<open>
  The numbers of the source are double-precision floats. The numbers that the parsers
  make come from \<open>parseInt\<close> of decimal digits and from additions of such numbers:
  they are non-negative integers or \<open>+Infinity\<close>, and they are modelled as extended
  natural numbers, with the rounding of every operation written out.
\<close>

type_synonym number = enat

text \<open>The number of binary digits of a natural number.\<close>

fun bitLength :: "nat \<Rightarrow> nat" where
  "bitLength n = (if n = 0 then 0 else Suc (bitLength (n div 2)))"

declare bitLength.simps [simp del]

text \<open>
  The number value of a non-negative integer: the nearest double, with 53 binary
  digits, the one with an even last digit when two are equally near, and
  \<open>+Infinity\<close> when the rounding reaches \<open>2^1024\<close>. Every integer up to \<open>2^53\<close> is
  its own number value.
\<close>

definition toNumber :: "nat \<Rightarrow> number" where
  "toNumber n =
     (let e = bitLength n - 53;
          q = n div 2 ^ e;
          r = n mod 2 ^ e;
          m = (if 2 * r < 2 ^ e \<or> (2 * r = 2 ^ e \<and> even q) then q else q + 1) * 2 ^ e
      in if m < 2 ^ 1024 then enat m else \<infinity>)"

text \<open>The integers that are doubles: those that are their own number value.\<close>

definition exactNumber :: "nat \<Rightarrow> bool" where
  "exactNumber n \<longleftrightarrow> toNumber n = enat n"

text \<open>\<open>a + b\<close> of two such numbers: the number value of the exact sum.\<close>

definition numAdd :: "number \<Rightarrow> number \<Rightarrow> number" where
  "numAdd a b = (case a + b of enat n \<Rightarrow> toNumber n | \<infinity> \<Rightarrow> \<infinity>)"

text \<open>The integer that a string of decimal digits denotes.\<close>

definition decimalValue :: "jsstring \<Rightarrow> nat" where
  "decimalValue s = foldl (\<lambda>n c. 10 * n + (c - 0x30)) 0 s"

text \<open>
  \<open>parseInt(s, 10)\<close> of a string of decimal digits (the only strings that the regular
  expressions pass to it): the number value of the integer that the digits denote.
  For more than 20 significant digits the language standard lets an implementation
  replace the digits after the 20th by zeros before it rounds; the model takes the
  exact integer, which the standard allows as well.
\<close>

definition parseInt10 :: "jsstring \<Rightarrow> number" where
  "parseInt10 s = toNumber (decimalValue s)"


section \<open>The status parser\<close>

record GitFileEntryV2 =
  path :: jsstring
  index :: jsstring
  workingDir :: jsstring
  fromPath :: "jsstring option"

record GitBranchInfo =
  oid :: "jsstring option"
  head :: "jsstring option"
  upstream :: "jsstring option"
  ahead :: "number option"
  behind :: "number option"

record GitStatusSummaryV2 =
  files :: "GitFileEntryV2 list"
  notAdded :: "jsstring list"
  ignored :: "jsstring list"
  branchInfo :: GitBranchInfo

definition parseOrdinaryChange :: "jsstring list \<Rightarrow> GitFileEntryV2 option" where
  "parseOrdinaryChange matches =
     (if matches ! 1 = [] \<or> matches ! 2 = [] \<or> matches ! 9 = [] then None
      else Some \<lparr>path = matches ! 9, index = matches ! 1, workingDir = matches ! 2,
                 fromPath = None\<rparr>)"

definition parseRenameCopy :: "jsstring list \<Rightarrow> GitFileEntryV2 option" where
  "parseRenameCopy matches =
     (if matches ! 1 = [] \<or> matches ! 2 = [] \<or> matches ! 11 = [] \<or> matches ! 12 = []
      then None
      else Some \<lparr>path = matches ! 12, index = matches ! 1, workingDir = matches ! 2,
                 fromPath = Some (matches ! 11)\<rparr>)"

definition parseUnmerged :: "jsstring list \<Rightarrow> GitFileEntryV2 option" where
  "parseUnmerged matches =
     (if matches ! 1 = [] \<or> matches ! 2 = [] \<or> matches ! 11 = [] then None
      else Some \<lparr>path = matches ! 11, index = matches ! 1, workingDir = matches ! 2,
                 fromPath = None\<rparr>)"

definition pushFile :: "GitStatusSummaryV2 \<Rightarrow> GitFileEntryV2 option \<Rightarrow> GitStatusSummaryV2" where
  "pushFile result entry =
     (case entry of None \<Rightarrow> result | Some e \<Rightarrow> result\<lparr>files := files result @ [e]\<rparr>)"

text \<open>One turn of the loop of \<open>parseStatusSummaryV2\<close>.\<close>

definition statusStep :: "GitStatusSummaryV2 \<Rightarrow> jsstring \<Rightarrow> GitStatusSummaryV2" where
  "statusStep result line =
     (if startsWith line (str ''# branch.oid '') then
        (case exec BRANCH_OID_REGEX line of
           Some m \<Rightarrow> result\<lparr>branchInfo := (branchInfo result)\<lparr>oid := Some (m ! 1)\<rparr>\<rparr>
         | None \<Rightarrow> result)
      else if startsWith line (str ''# branch.head '') then
        (case exec BRANCH_HEAD_REGEX line of
           Some m \<Rightarrow> result\<lparr>branchInfo := (branchInfo result)\<lparr>head := Some (m ! 1)\<rparr>\<rparr>
         | None \<Rightarrow> result)
      else if startsWith line (str ''# branch.upstream '') then
        (case exec BRANCH_UPSTREAM_REGEX line of
           Some m \<Rightarrow> result\<lparr>branchInfo := (branchInfo result)\<lparr>upstream := Some (m ! 1)\<rparr>\<rparr>
         | None \<Rightarrow> result)
      else if startsWith line (str ''# branch.ab '') then
        (case exec BRANCH_AB_REGEX line of
           Some m \<Rightarrow> result\<lparr>branchInfo := (branchInfo result)
                        \<lparr>ahead := Some (parseInt10 (m ! 1)), behind := Some (parseInt10 (m ! 2))\<rparr>\<rparr>
         | None \<Rightarrow> result)
      else if startsWith line (str ''1 '') then
        (case exec ORDINARY_CHANGE_REGEX line of
           Some m \<Rightarrow> pushFile result (parseOrdinaryChange m)
         | None \<Rightarrow> result)
      else if startsWith line (str ''2 '') then
        (case exec RENAME_COPY_REGEX line of
           Some m \<Rightarrow> pushFile result (parseRenameCopy m)
         | None \<Rightarrow> result)
      else if startsWith line (str ''u '') then
        (case exec UNMERGED_REGEX line of
           Some m \<Rightarrow> pushFile result (parseUnmerged m)
         | None \<Rightarrow> result)
      else if startsWith line (str ''? '') then
        (case exec UNTRACKED_REGEX line of
           Some m \<Rightarrow> result\<lparr>notAdded := notAdded result @ [m ! 1]\<rparr>
         | None \<Rightarrow> result)
      else if startsWith line (str ''! '') then
        (case exec IGNORED_REGEX line of
           Some m \<Rightarrow> result\<lparr>ignored := ignored result @ [m ! 1]\<rparr>
         | None \<Rightarrow> result)
      else result)"

text \<open>\<open>text.trim().split('\n').filter((line) => line.length > 0)\<close>.\<close>

definition nonEmptyLines :: "jsstring \<Rightarrow> jsstring list" where
  "nonEmptyLines text' = filter (\<lambda>line. line \<noteq> []) (splitOn 10 (trim text'))"

definition emptyStatusSummary :: GitStatusSummaryV2 where
  "emptyStatusSummary =
     \<lparr>files = [], notAdded = [], ignored = [],
      branchInfo = \<lparr>oid = None, head = None, upstream = None, ahead = None, behind = None\<rparr>\<rparr>"

definition parseStatusSummaryV2 :: "jsstring \<Rightarrow> GitStatusSummaryV2" where
  "parseStatusSummaryV2 statusOutput =
     foldl statusStep emptyStatusSummary (nonEmptyLines statusOutput)"

definition getCurrentBranchV2 :: "GitStatusSummaryV2 \<Rightarrow> jsstring option" where
  "getCurrentBranchV2 summary =
     (case head (branchInfo summary) of
        None \<Rightarrow> None
      | Some h \<Rightarrow>
          if h = [] \<or> h = str ''(detached)'' \<or> h = str ''(initial)'' then None else Some h)"

datatype fileStatus = Modified | Added | Deleted | Renamed | Untracked | Conflicted

definition getFileStatus :: "jsstring \<Rightarrow> fileStatus" where
  "getFileStatus statusChar =
     (if statusChar = str ''M'' then Modified
      else if statusChar = str ''A'' then Added
      else if statusChar = str ''D'' then Deleted
      else if statusChar = str ''R'' \<or> statusChar = str ''C'' then Renamed
      else if statusChar = str ''?'' then Untracked
      else if statusChar = str ''U'' then Conflicted
      else Modified)"

section \<open>The numstat parser\<close>

text \<open>
  The fields \<open>file\<close> of a stat and \<open>files\<close>, \<open>insertions\<close>, \<open>deletions\<close> and \<open>changes\<close> of
  a summary are named \<open>statFile\<close>, \<open>fileStats\<close>, \<open>totalInsertions\<close>, \<open>totalDeletions\<close> and
  \<open>totalChanges\<close> here. \<open>changed\<close> counts lines of a string and is incremented by one,
  so it stays far below \<open>2^53\<close> and is a natural number.
\<close>

record DiffFileStat =
  statFile :: jsstring
  changes :: number
  insertions :: number
  deletions :: number
  binary :: bool

record DiffSummary =
  fileStats :: "DiffFileStat list"
  totalInsertions :: number
  totalDeletions :: number
  totalChanges :: number
  changed :: nat

text \<open>What one line of the numstat text adds to the summary, when the line matches.\<close>

definition parseNumStatLine :: "jsstring \<Rightarrow> DiffFileStat option" where
  "parseNumStatLine line =
     (case exec NUMSTAT_REGEX line of
        None \<Rightarrow> None
      | Some m \<Rightarrow>
          (let insertionsStr = m ! 1;
               deletionsStr = m ! 2;
               isBinary = (insertionsStr = str ''-'' \<or> deletionsStr = str ''-'');
               ins = (if isBinary then 0 else parseInt10 insertionsStr);
               del = (if isBinary then 0 else parseInt10 deletionsStr)
           in Some \<lparr>statFile = m ! 3, changes = numAdd ins del, insertions = ins,
                    deletions = del, binary = isBinary\<rparr>))"

definition numStatStep :: "DiffSummary \<Rightarrow> jsstring \<Rightarrow> DiffSummary" where
  "numStatStep result line =
     (case parseNumStatLine line of
        None \<Rightarrow> result
      | Some f \<Rightarrow>
          \<lparr>fileStats = fileStats result @ [f],
           totalInsertions = numAdd (totalInsertions result) (insertions f),
           totalDeletions = numAdd (totalDeletions result) (deletions f),
           totalChanges = numAdd (totalChanges result) (changes f),
           changed = changed result + 1\<rparr>)"

definition emptyDiffSummary :: DiffSummary where
  "emptyDiffSummary =
     \<lparr>fileStats = [], totalInsertions = 0, totalDeletions = 0, totalChanges = 0, changed = 0\<rparr>"

definition parseNumStat :: "jsstring \<Rightarrow> DiffSummary" where
  "parseNumStat numStatOutput = foldl numStatStep emptyDiffSummary (nonEmptyLines numStatOutput)"

lemmas regex_defs = andThen_def lit_def groupN_def groupPlus_def restPlus_def restStar_def
  atEnd_def exec_def isLineTerminator_def isDot_def isDigit_def isLowerHex_def xySub_def
  modeField_def hashField_def isRC_def scoreDigits_def twoPaths_def countField_def



definition TAB :: jsstring where
  "TAB = [9]"

text \<open>The decimal numeral of a natural number.\<close>

fun decimal :: "nat \<Rightarrow> jsstring" where
  "decimal n = (if n < 10 then [0x30 + n] else decimal (n div 10) @ [0x30 + n mod 10])"

declare decimal.simps [simp del]

text \<open>A count of a numstat line: a dash, or decimal digits.\<close>

definition isCount :: "jsstring \<Rightarrow> bool" where
  "isCount a \<longleftrightarrow> a = str ''-'' \<or> (a \<noteq> [] \<and> list_all isDigit a)"

definition exNumstatBody :: jsstring where
  "exNumstatBody = str ''2'' @ TAB @ str ''1'' @ TAB @ str ''src/app.ts'' @ NL @
     str ''-'' @ TAB @ str ''-'' @ TAB @ str ''bin/file'' @ NL"

text \<open>
  Numstat texts with a count that is no double, with a line that ends in a carriage
  return, and with a last line whose path is empty.
\<close>

definition exBigCount :: jsstring where
  "exBigCount = str ''9007199254740993'' @ TAB @ str ''0'' @ TAB @ str ''a''"

definition exCarriageReturn :: jsstring where
  "exCarriageReturn = str ''1'' @ TAB @ str ''2'' @ TAB @ str ''a'' @ [13] @ NL @
     str ''3'' @ TAB @ str ''4'' @ TAB @ str ''b''"

definition exEmptyPath :: jsstring where
  "exEmptyPath = str ''1'' @ TAB @ str ''2'' @ TAB"

definition exStatusLine :: jsstring where
  "exStatusLine = str ''1 .M N... 100644 100644 100644 aaaaaaa aaaaaaa src/app.ts''"

lemmas status_defs = parseStatusSummaryV2_def nonEmptyLines_def statusStep_def pushFile_def
  parseOrdinaryChange_def parseRenameCopy_def parseUnmerged_def emptyStatusSummary_def
  BRANCH_OID_REGEX_def BRANCH_HEAD_REGEX_def BRANCH_UPSTREAM_REGEX_def BRANCH_AB_REGEX_def
  ORDINARY_CHANGE_REGEX_def RENAME_COPY_REGEX_def UNMERGED_REGEX_def UNTRACKED_REGEX_def
  IGNORED_REGEX_def parseInt10_def decimalValue_def


section \<open>Properties of the numbers\<close>

lemma bitLength_le: "n < 2 ^ k \<Longrightarrow> bitLength n \<le> k"
proof (induction k arbitrary: n)
  case 0
  then show ?case by (simp add: bitLength.simps)
next
  case (Suc k)
  then have "n div 2 < 2 ^ k" by simp
  from Suc.IH [OF this] show ?case by (subst bitLength.simps) simp
qed

lemma bitLength_bounds: "2 ^ k \<le> n \<Longrightarrow> n < 2 ^ Suc k \<Longrightarrow> bitLength n = Suc k"
proof (induction k arbitrary: n)
  case 0
  then have "n = 1" by simp
  then show ?case by (simp add: bitLength.simps)
next
  case (Suc k)
  have a: "2 ^ k \<le> n div 2" using Suc.prems(1) by simp
  have b: "n div 2 < 2 ^ Suc k" using Suc.prems(2) by simp
  have "0 < (2::nat) ^ Suc k" by simp
  then have "n \<noteq> 0" using Suc.prems(1) by linarith
  then show ?case using Suc.IH [OF a b] by (subst bitLength.simps) simp
qed

text \<open>Every integer up to \<open>2^53\<close> is a double.\<close>

lemma toNumber_exact: "n \<le> 2 ^ 53 \<Longrightarrow> toNumber n = enat n"
proof (cases "n < 2 ^ 53")
  case True
  have "bitLength n \<le> 53" using True by (rule bitLength_le)
  then have e: "bitLength n - 53 = 0" by simp
  have "n < 2 ^ 1024" using True by (rule less_trans) simp
  then show ?thesis by (simp add: toNumber_def e)
next
  case False
  assume "n \<le> 2 ^ 53"
  then have n: "n = 2 ^ 53" using False by simp
  have "bitLength (2 ^ 53) = Suc 53" by (rule bitLength_bounds) simp_all
  then have e: "bitLength (2 ^ 53) - 53 = 1" by simp
  have "toNumber (2 ^ 53) = enat (2 ^ 53)"
    unfolding toNumber_def e by simp
  then show ?thesis by (simp only: n)
qed

lemma numAdd_exact: "a + b \<le> 2 ^ 53 \<Longrightarrow> numAdd (enat a) (enat b) = enat (a + b)"
  by (simp add: numAdd_def toNumber_exact)

lemma toNumber_small:
  "toNumber 0 = 0" "toNumber (Suc 0) = 1" "toNumber 1 = 1"
  "numeral k \<le> (2::nat) ^ 53 \<Longrightarrow> toNumber (numeral k) = numeral k"
  by (simp_all add: toNumber_exact numeral_eq_enat one_enat_def zero_enat_def)

lemma numAdd_zero: "numAdd 0 0 = 0"
  using numAdd_exact [of 0 0] by (simp add: zero_enat_def)

text \<open>The first integer that is no double is rounded to the even neighbour.\<close>

lemma toNumber_rounds: "toNumber 9007199254740993 = 9007199254740992"
proof -
  have "bitLength 9007199254740993 = Suc 53" by (rule bitLength_bounds) simp_all
  then have e: "bitLength 9007199254740993 - 53 = 1" by simp
  show ?thesis unfolding toNumber_def e by (simp add: numeral_eq_enat)
qed

text \<open>A chain of additions is exact as long as the sum is at most \<open>2^53\<close>.\<close>

lemma foldl_numAdd_exact:
  "a + sum_list xs \<le> enat (2 ^ 53) \<Longrightarrow> foldl numAdd a xs = a + sum_list xs"
proof (induction xs arbitrary: a)
  case Nil
  then show ?case by simp
next
  case (Cons x xs)
  have le: "a + x \<le> enat (2 ^ 53)"
    using Cons.prems by (metis add.assoc le_iff_add order_trans sum_list.Cons)
  then obtain m where m: "a + x = enat m" by (cases "a + x") auto
  then obtain a' x' where ax: "a = enat a'" "x = enat x'" by (cases a; cases x) auto
  have "numAdd a x = a + x" using le by (simp add: ax numAdd_exact)
  then show ?case using Cons.IH [of "a + x"] Cons.prems by (simp add: add.assoc)
qed


section \<open>Properties of the numstat parser\<close>

lemma decimal_digits: "list_all isDigit (decimal n) \<and> decimal n \<noteq> []"
proof (induction n rule: decimal.induct)
  case (1 n)
  have "n mod 10 < 10" by simp
  then have "n mod 10 \<le> 9" by linarith
  then show ?case using 1
    by (subst (1 2) decimal.simps) (auto simp: isDigit_def [abs_def])
qed

lemma decimalValue_snoc: "decimalValue (ds @ [c]) = 10 * decimalValue ds + (c - 0x30)"
  by (simp add: decimalValue_def)

lemma decimalValue_decimal: "decimalValue (decimal n) = n"
proof (induction n rule: decimal.induct)
  case (1 n)
  show ?case
  proof (cases "n < 10")
    case True
    then show ?thesis by (subst decimal.simps) (simp add: decimalValue_def)
  next
    case False
    then show ?thesis using 1 by (subst decimal.simps) (simp add: decimalValue_snoc)
  qed
qed

lemma parseInt10_decimal: "n \<le> 2 ^ 53 \<Longrightarrow> parseInt10 (decimal n) = enat n"
  by (simp add: parseInt10_def decimalValue_decimal toNumber_exact)

lemma takeWhile_digits:
  "list_all isDigit ds \<Longrightarrow> takeWhile isDigit (ds @ 9 # r) = ds \<and> dropWhile isDigit (ds @ 9 # r) = 9 # r"
  by (induction ds) (auto simp: isDigit_def)

lemma lit_TAB: "lit [CHR 0x09] (9 # r) = Some ([], r)"
  by (simp add: lit_def startsWith_def str_def)

lemma countField_digits:
  assumes "ds \<noteq> []" "list_all isDigit ds"
  shows "countField (ds @ 9 # r) = Some ([ds], r)"
proof -
  obtain c cs where ds: "ds = c # cs" using assms(1) by (cases ds) auto
  have c: "c \<noteq> 0x2D" using assms(2) by (auto simp: ds isDigit_def)
  have "countField (ds @ 9 # r) = andThen (groupPlus isDigit) (lit [CHR 0x09]) (ds @ 9 # r)"
    using c by (simp add: countField_def ds)
  then show ?thesis
    using takeWhile_digits [OF assms(2), of r] assms(1)
    by (simp add: andThen_def groupPlus_def lit_TAB)
qed

lemma countField_dash: "countField (0x2D # 9 # r) = Some ([[0x2D]], r)"
  by (simp add: countField_def andThen_def lit_TAB)

lemma digits_not_dash: "ds \<noteq> [] \<Longrightarrow> list_all isDigit ds \<Longrightarrow> ds \<noteq> str ''-''"
  by (cases ds) (auto simp: str_def isDigit_def)

lemma countField_count: "isCount a \<Longrightarrow> countField (a @ 9 # r) = Some ([a], r)"
  by (auto simp: isCount_def countField_digits) (simp add: str_def countField_dash)

lemma exec_NUMSTAT:
  assumes "isCount a" "isCount b" "list_all isDot p"
  shows "exec NUMSTAT_REGEX (a @ TAB @ b @ TAB @ p) = Some [a @ TAB @ b @ TAB @ p, a, b, p]"
  using assms countField_count [of a "b @ 9 # p"] countField_count [of b p]
  by (simp add: NUMSTAT_REGEX_def exec_def andThen_def restStar_def TAB_def)

lemma parseNumStatLine_digits:
  assumes "a \<noteq> []" "list_all isDigit a" "b \<noteq> []" "list_all isDigit b" "list_all isDot p"
  shows "parseNumStatLine (a @ TAB @ b @ TAB @ p) =
    Some \<lparr>statFile = p, changes = numAdd (parseInt10 a) (parseInt10 b), insertions = parseInt10 a,
          deletions = parseInt10 b, binary = False\<rparr>"
  using assms exec_NUMSTAT [of a b p] digits_not_dash
  by (simp add: parseNumStatLine_def isCount_def Let_def)

lemma exactNumber_small: "n \<le> 2 ^ 53 \<Longrightarrow> exactNumber n"
  by (simp add: exactNumber_def toNumber_exact)

lemma parseNumStatLine_decimal:
  assumes "exactNumber n" "exactNumber m" "exactNumber (n + m)" "list_all isDot p"
  shows "parseNumStatLine (decimal n @ TAB @ decimal m @ TAB @ p) =
    Some \<lparr>statFile = p, changes = enat (n + m), insertions = enat n, deletions = enat m,
          binary = False\<rparr>"
proof -
  have n: "parseInt10 (decimal n) = enat n" and m: "parseInt10 (decimal m) = enat m"
    using assms(1,2) by (simp_all add: parseInt10_def decimalValue_decimal exactNumber_def)
  have a: "numAdd (enat n) (enat m) = enat (n + m)"
    using assms(3) by (simp add: numAdd_def exactNumber_def)
  show ?thesis
    using parseNumStatLine_digits [of "decimal n" "decimal m" p] decimal_digits assms(4)
    by (simp add: n m a)
qed

lemma parseNumStatLine_binary:
  assumes "isCount a" "isCount b" "a = str ''-'' \<or> b = str ''-''" "list_all isDot p"
  shows "parseNumStatLine (a @ TAB @ b @ TAB @ p) =
    Some \<lparr>statFile = p, changes = 0, insertions = 0, deletions = 0, binary = True\<rparr>"
  using assms exec_NUMSTAT [of a b p]
  by (auto simp: parseNumStatLine_def Let_def numAdd_zero)

lemma parseNumStatLine_binary_zero:
  "parseNumStatLine line = Some f \<Longrightarrow>
   changes f = numAdd (insertions f) (deletions f) \<and>
   (binary f \<longrightarrow> insertions f = 0 \<and> deletions f = 0)"
  by (auto simp: parseNumStatLine_def Let_def split: option.splits)

lemma foldl_numStatStep:
  "foldl numStatStep st ls =
     \<lparr>fileStats = fileStats st @ List.map_filter parseNumStatLine ls,
      totalInsertions = foldl numAdd (totalInsertions st)
        (map insertions (List.map_filter parseNumStatLine ls)),
      totalDeletions = foldl numAdd (totalDeletions st)
        (map deletions (List.map_filter parseNumStatLine ls)),
      totalChanges = foldl numAdd (totalChanges st)
        (map changes (List.map_filter parseNumStatLine ls)),
      changed = changed st + length (List.map_filter parseNumStatLine ls)\<rparr>"
proof (induction ls arbitrary: st)
  case Nil
  then show ?case by (simp add: List.map_filter_simps)
next
  case (Cons l ls)
  have step: "numStatStep st l =
      (case parseNumStatLine l of
         None \<Rightarrow> st
       | Some f \<Rightarrow>
          \<lparr>fileStats = fileStats st @ [f],
           totalInsertions = numAdd (totalInsertions st) (insertions f),
           totalDeletions = numAdd (totalDeletions st) (deletions f),
           totalChanges = numAdd (totalChanges st) (changes f),
           changed = changed st + 1\<rparr>)"
    by (simp add: numStatStep_def)
  show ?case
    by (cases "parseNumStatLine l") (simp_all add: step Cons.IH List.map_filter_simps)
qed

lemma parseNumStat_files:
  "fileStats (parseNumStat body) = List.map_filter parseNumStatLine (nonEmptyLines body)"
  by (simp add: parseNumStat_def foldl_numStatStep emptyDiffSummary_def)

text \<open>A line of the trimmed text that parses gives its stat to the summary.\<close>

lemma parseNumStat_member:
  assumes "l \<in> set (splitOn 10 (trim body))" "parseNumStatLine l = Some f"
  shows "f \<in> set (fileStats (parseNumStat body))"
proof -
  have "l \<noteq> []" using assms(2)
    by (auto simp: parseNumStatLine_def exec_def NUMSTAT_REGEX_def andThen_def countField_def
        groupPlus_def lit_def startsWith_def)
  then have "l \<in> set (nonEmptyLines body)" using assms(1) by (simp add: nonEmptyLines_def)
  then show ?thesis
    using assms(2) by (force simp: parseNumStat_files List.map_filter_def)
qed

text \<open>The totals are the sums of the stats as long as those sums are at most \<open>2^53\<close>.\<close>

lemma parseNumStat_totals:
  "totalInsertions (parseNumStat body) =
     foldl numAdd 0 (map insertions (fileStats (parseNumStat body)))"
  "totalDeletions (parseNumStat body) =
     foldl numAdd 0 (map deletions (fileStats (parseNumStat body)))"
  "totalChanges (parseNumStat body) =
     foldl numAdd 0 (map changes (fileStats (parseNumStat body)))"
  "changed (parseNumStat body) = length (fileStats (parseNumStat body))"
  by (simp_all add: parseNumStat_def foldl_numStatStep emptyDiffSummary_def)

lemma changes_exact:
  assumes "f \<in> set fs" "sum_list (map insertions fs) + sum_list (map deletions fs) \<le> enat (2 ^ 53)"
    and "changes f = numAdd (insertions f) (deletions f)"
  shows "changes f = insertions f + deletions f"
proof -
  have i: "insertions f \<le> sum_list (map insertions fs)"
    using assms(1) by (simp add: member_le_sum_list)
  have d: "deletions f \<le> sum_list (map deletions fs)"
    using assms(1) by (simp add: member_le_sum_list)
  have le: "insertions f + deletions f \<le> enat (2 ^ 53)"
    using add_mono [OF i d] assms(2) by (rule order_trans)
  then obtain a b where ab: "insertions f = enat a" "deletions f = enat b"
    by (cases "insertions f"; cases "deletions f") auto
  show ?thesis using le by (simp add: assms(3) ab numAdd_exact)
qed

text \<open>
  C7 (as amended). A line of the trimmed text of the form \<open>n\<close>, tab, \<open>m\<close>, tab,
  \<open>path\<close>, with decimal \<open>n\<close> and \<open>m\<close> such that \<open>n\<close>, \<open>m\<close> and \<open>n + m\<close> are doubles (as
  every integer up to \<open>2^53\<close> is) and a path with no line terminator, gives the
  summary a stat with \<open>n\<close> insertions, \<open>m\<close> deletions, \<open>n + m\<close> changes and
  \<open>binary = False\<close>; a line whose counts are decimal or a dash, one of them at least
  a dash, gives a stat with \<open>binary = True\<close>. The stats of a text are those of its non-empty
  lines that parse, in order; in each of them \<open>changes\<close> is the rounded sum of the
  insertions and the deletions, and \<open>binary\<close> implies that both are zero. \<open>changed\<close> is
  the number of the stats. The totals of the insertions and of the deletions are
  the sums over the stats when these sums are at most \<open>2^53\<close>, and when both sums
  together are at most \<open>2^53\<close> every \<open>changes\<close> is exact and the total of the changes
  is the sum over the stats.
\<close>

theorem parseNumStat_lines:
  "(\<forall>l \<in> set (splitOn 10 (trim body)). \<forall>n m p.
      l = decimal n @ TAB @ decimal m @ TAB @ p \<and> list_all isDot p \<and>
      exactNumber n \<and> exactNumber m \<and> exactNumber (n + m) \<longrightarrow>
      \<lparr>statFile = p, changes = enat (n + m), insertions = enat n, deletions = enat m,
        binary = False\<rparr> \<in> set (fileStats (parseNumStat body))) \<and>
   (\<forall>n. n \<le> 2 ^ 53 \<longrightarrow> exactNumber n) \<and>
   (\<forall>l \<in> set (splitOn 10 (trim body)). \<forall>a b p.
      l = a @ TAB @ b @ TAB @ p \<and> isCount a \<and> isCount b \<and> (a = str ''-'' \<or> b = str ''-'') \<and>
      list_all isDot p \<longrightarrow>
      \<lparr>statFile = p, changes = 0, insertions = 0, deletions = 0, binary = True\<rparr>
        \<in> set (fileStats (parseNumStat body))) \<and>
   fileStats (parseNumStat body) = List.map_filter parseNumStatLine (nonEmptyLines body) \<and>
   (\<forall>f \<in> set (fileStats (parseNumStat body)).
      changes f = numAdd (insertions f) (deletions f) \<and>
      (binary f \<longrightarrow> insertions f = 0 \<and> deletions f = 0)) \<and>
   changed (parseNumStat body) = length (fileStats (parseNumStat body)) \<and>
   (sum_list (map insertions (fileStats (parseNumStat body))) \<le> enat (2 ^ 53) \<longrightarrow>
      totalInsertions (parseNumStat body) =
        sum_list (map insertions (fileStats (parseNumStat body)))) \<and>
   (sum_list (map deletions (fileStats (parseNumStat body))) \<le> enat (2 ^ 53) \<longrightarrow>
      totalDeletions (parseNumStat body) =
        sum_list (map deletions (fileStats (parseNumStat body)))) \<and>
   (sum_list (map insertions (fileStats (parseNumStat body))) +
    sum_list (map deletions (fileStats (parseNumStat body))) \<le> enat (2 ^ 53) \<longrightarrow>
      (\<forall>f \<in> set (fileStats (parseNumStat body)). changes f = insertions f + deletions f) \<and>
      totalChanges (parseNumStat body) =
        sum_list (map changes (fileStats (parseNumStat body))) \<and>
      totalChanges (parseNumStat body) =
        totalInsertions (parseNumStat body) + totalDeletions (parseNumStat body))"
proof -
  let ?fs = "fileStats (parseNumStat body)"
  have 1: "\<forall>l \<in> set (splitOn 10 (trim body)). \<forall>n m p.
      l = decimal n @ TAB @ decimal m @ TAB @ p \<and> list_all isDot p \<and>
      exactNumber n \<and> exactNumber m \<and> exactNumber (n + m) \<longrightarrow>
      \<lparr>statFile = p, changes = enat (n + m), insertions = enat n, deletions = enat m,
        binary = False\<rparr> \<in> set ?fs"
    using parseNumStat_member parseNumStatLine_decimal by blast
  have 0: "\<forall>n. n \<le> 2 ^ 53 \<longrightarrow> exactNumber n"
    using exactNumber_small by blast
  have 2: "\<forall>l \<in> set (splitOn 10 (trim body)). \<forall>a b p.
      l = a @ TAB @ b @ TAB @ p \<and> isCount a \<and> isCount b \<and> (a = str ''-'' \<or> b = str ''-'') \<and>
      list_all isDot p \<longrightarrow>
      \<lparr>statFile = p, changes = 0, insertions = 0, deletions = 0, binary = True\<rparr> \<in> set ?fs"
    using parseNumStat_member parseNumStatLine_binary by blast
  have 3: "?fs = List.map_filter parseNumStatLine (nonEmptyLines body)"
    by (rule parseNumStat_files)
  have 4: "\<forall>f \<in> set ?fs.
      changes f = numAdd (insertions f) (deletions f) \<and>
      (binary f \<longrightarrow> insertions f = 0 \<and> deletions f = 0)"
    unfolding 3 using parseNumStatLine_binary_zero
    by (auto simp: List.map_filter_def)
  have 5: "changed (parseNumStat body) = length ?fs"
    by (rule parseNumStat_totals)
  have 6: "sum_list (map insertions ?fs) \<le> enat (2 ^ 53) \<longrightarrow>
      totalInsertions (parseNumStat body) = sum_list (map insertions ?fs)"
    using foldl_numAdd_exact [of 0 "map insertions ?fs"] by (simp add: parseNumStat_totals)
  have 7: "sum_list (map deletions ?fs) \<le> enat (2 ^ 53) \<longrightarrow>
      totalDeletions (parseNumStat body) = sum_list (map deletions ?fs)"
    using foldl_numAdd_exact [of 0 "map deletions ?fs"] by (simp add: parseNumStat_totals)
  have 8: "sum_list (map insertions ?fs) + sum_list (map deletions ?fs) \<le> enat (2 ^ 53) \<longrightarrow>
      (\<forall>f \<in> set ?fs. changes f = insertions f + deletions f) \<and>
      totalChanges (parseNumStat body) = sum_list (map changes ?fs) \<and>
      totalChanges (parseNumStat body) =
        totalInsertions (parseNumStat body) + totalDeletions (parseNumStat body)"
  proof
    assume le: "sum_list (map insertions ?fs) + sum_list (map deletions ?fs) \<le> enat (2 ^ 53)"
    have c: "\<forall>f \<in> set ?fs. changes f = insertions f + deletions f"
      using changes_exact [OF _ le] 4 by blast
    then have s: "sum_list (map changes ?fs) =
        sum_list (map insertions ?fs) + sum_list (map deletions ?fs)"
      by (simp add: sum_list_addf cong: map_cong)
    have t: "totalChanges (parseNumStat body) = sum_list (map changes ?fs)"
      using foldl_numAdd_exact [of 0 "map changes ?fs"] le
      by (simp add: parseNumStat_totals s)
    have i: "sum_list (map insertions ?fs) \<le> enat (2 ^ 53)"
      using le by (metis le_iff_add order_trans)
    have d: "sum_list (map deletions ?fs) \<le> enat (2 ^ 53)"
      using le by (metis add.commute le_iff_add order_trans)
    show "(\<forall>f \<in> set ?fs. changes f = insertions f + deletions f) \<and>
      totalChanges (parseNumStat body) = sum_list (map changes ?fs) \<and>
      totalChanges (parseNumStat body) =
        totalInsertions (parseNumStat body) + totalDeletions (parseNumStat body)"
      using c t s 6 7 i d by simp
  qed
  show ?thesis by (intro conjI 1 0 2 3 4 5 6 7 8)
qed

theorem parseNumStat_lines_witness:
  "fileStats (parseNumStat exNumstatBody) =
     [\<lparr>statFile = str ''src/app.ts'', changes = 3, insertions = 2, deletions = 1,
       binary = False\<rparr>,
      \<lparr>statFile = str ''bin/file'', changes = 0, insertions = 0, deletions = 0,
       binary = True\<rparr>] \<and>
   \<lparr>statFile = str ''src/app.ts'', changes = 3, insertions = 2, deletions = 1,
     binary = False\<rparr> \<in> set (fileStats (parseNumStat exNumstatBody)) \<and>
   \<lparr>statFile = str ''bin/file'', changes = 0, insertions = 0, deletions = 0,
     binary = True\<rparr> \<in> set (fileStats (parseNumStat exNumstatBody)) \<and>
   totalInsertions (parseNumStat exNumstatBody) = 2 \<and>
   totalDeletions (parseNumStat exNumstatBody) = 1 \<and>
   totalChanges (parseNumStat exNumstatBody) = 3 \<and>
   changed (parseNumStat exNumstatBody) = 2 \<and>
   numAdd 2 1 = 3"
proof -
  let ?l1 = "str ''2'' @ TAB @ str ''1'' @ TAB @ str ''src/app.ts''"
  let ?l2 = "str ''-'' @ TAB @ str ''-'' @ TAB @ str ''bin/file''"
  let ?f1 = "\<lparr>statFile = str ''src/app.ts'', changes = 3, insertions = 2, deletions = 1,
       binary = False\<rparr>"
  let ?f2 = "\<lparr>statFile = str ''bin/file'', changes = 0, insertions = 0, deletions = 0,
       binary = True\<rparr>"
  note t = parseNumStat_lines [of exNumstatBody]
  have ls: "splitOn 10 (trim exNumstatBody) = [?l1, ?l2]"
    by (simp add: exNumstatBody_def TAB_def string_defs)
  have nl: "nonEmptyLines exNumstatBody = [?l1, ?l2]"
    by (simp add: nonEmptyLines_def ls) (simp add: TAB_def)
  have i1: "?l1 \<in> set (splitOn 10 (trim exNumstatBody))" by (simp add: ls)
  have i2: "?l2 \<in> set (splitOn 10 (trim exNumstatBody))" by (simp add: ls)
  have d: "?l1 = decimal 2 @ TAB @ decimal 1 @ TAB @ str ''src/app.ts''"
    by (simp add: decimal.simps str_def)
  have p: "list_all isDot (str ''src/app.ts'')" "list_all isDot (str ''bin/file'')"
    by (simp_all add: str_def isDot_def isLineTerminator_def)
  have c: "isCount (str ''-'')" by (simp add: isCount_def)
  have e: "enat (2 + 1) = 3" "enat 2 = 2" "enat 1 = 1"
    by (simp_all add: numeral_eq_enat one_enat_def)
  note x = t [THEN conjunct2, THEN conjunct1, rule_format]
  have x3: "exactNumber 2" "exactNumber 1" "exactNumber (2 + 1)"
    by (rule x, simp)+
  have "\<lparr>statFile = str ''src/app.ts'', changes = enat (2 + 1), insertions = enat 2,
      deletions = enat 1, binary = False\<rparr> \<in> set (fileStats (parseNumStat exNumstatBody))"
    using t [THEN conjunct1, rule_format, OF i1, of 2 1 "str ''src/app.ts''"] d p(1) x3
    by blast
  then have m1: "?f1 \<in> set (fileStats (parseNumStat exNumstatBody))"
    by (simp only: e)
  have m2: "?f2 \<in> set (fileStats (parseNumStat exNumstatBody))"
    using t [THEN conjunct2, THEN conjunct2, THEN conjunct1, rule_format, OF i2,
        of "str ''-''" "str ''-''" "str ''bin/file''"] p(2) c
    by blast
  have l1: "parseNumStatLine ?l1 = Some ?f1"
    using parseNumStatLine_decimal [OF x3 p(1)] by (simp only: d e)
  have l2: "parseNumStatLine ?l2 = Some ?f2"
    using parseNumStatLine_binary [of "str ''-''" "str ''-''" "str ''bin/file''"] p(2) c by blast
  have fs: "fileStats (parseNumStat exNumstatBody) = [?f1, ?f2]"
    unfolding t [THEN conjunct2, THEN conjunct2, THEN conjunct2, THEN conjunct1] nl
    by (simp only: List.map_filter_simps l1 l2 option.case)
  have si: "sum_list (map insertions [?f1, ?f2]) = 2" "sum_list (map deletions [?f1, ?f2]) = 1"
    "sum_list (map changes [?f1, ?f2]) = 3"
    by simp_all
  have bb: "(2::enat) \<le> enat (2 ^ 53)" "(1::enat) \<le> enat (2 ^ 53)"
    "(2::enat) + 1 \<le> enat (2 ^ 53)"
    by (simp_all add: numeral_eq_enat one_enat_def)
  note t5 = t [THEN conjunct2, THEN conjunct2, THEN conjunct2, THEN conjunct2, THEN conjunct2,
      unfolded fs si]
  have n: "changed (parseNumStat exNumstatBody) = 2"
    using t5 [THEN conjunct1] by simp
  have ti: "totalInsertions (parseNumStat exNumstatBody) = 2"
    using t5 [THEN conjunct2, THEN conjunct1] bb(1) by blast
  have td: "totalDeletions (parseNumStat exNumstatBody) = 1"
    using t5 [THEN conjunct2, THEN conjunct2, THEN conjunct1] bb(2) by blast
  have tc: "totalChanges (parseNumStat exNumstatBody) = 3"
    using t5 [THEN conjunct2, THEN conjunct2, THEN conjunct2] bb(3) by blast
  have "changes ?f1 = numAdd (insertions ?f1) (deletions ?f1)"
    using t [THEN conjunct2, THEN conjunct2, THEN conjunct2, THEN conjunct2, THEN conjunct1,
        rule_format, OF m1] by blast
  then have na: "numAdd 2 1 = 3" by simp
  show ?thesis
    by (intro conjI fs m1 m2 n ti td tc na)
qed

text \<open>
  Against the claim as the specification words it: a count above \<open>2^53\<close> that is no
  double is rounded, a line that ends in a carriage return gives no stat, and a last
  line with an empty path loses its final tab to the trimming of the text and gives
  no stat.
\<close>

theorem parseNumStat_counterexample:
  "exBigCount = decimal 9007199254740993 @ TAB @ decimal 0 @ TAB @ str ''a'' \<and>
   fileStats (parseNumStat exBigCount) =
     [\<lparr>statFile = str ''a'', changes = 9007199254740992, insertions = 9007199254740992,
       deletions = 0, binary = False\<rparr>] \<and>
   totalInsertions (parseNumStat exBigCount) = 9007199254740992 \<and>
   totalInsertions (parseNumStat exBigCount) \<noteq> 9007199254740993 \<and>
   fileStats (parseNumStat exCarriageReturn) =
     [\<lparr>statFile = str ''b'', changes = 7, insertions = 3, deletions = 4, binary = False\<rparr>] \<and>
   fileStats (parseNumStat exEmptyPath) = []"
proof -
  let ?big = "str ''9007199254740993'' @ TAB @ str ''0'' @ TAB @ str ''a''"
  have d: "exBigCount = decimal 9007199254740993 @ TAB @ decimal 0 @ TAB @ str ''a''"
    by (simp add: exBigCount_def decimal.simps str_def)
  have v: "parseInt10 (str ''9007199254740993'') = 9007199254740992"
  proof -
    have "decimalValue (str ''9007199254740993'') = 9007199254740993"
      by (simp add: decimalValue_def str_def)
    then show ?thesis by (simp add: parseInt10_def toNumber_rounds)
  qed
  have z: "parseInt10 (str ''0'') = 0" "parseInt10 (str ''3'') = 3" "parseInt10 (str ''4'') = 4"
    by (simp_all add: parseInt10_def decimalValue_def str_def toNumber_small)
  have a: "numAdd 9007199254740992 0 = 9007199254740992"
    using numAdd_exact [of 9007199254740992 0] by (simp add: numeral_eq_enat zero_enat_def)
  have a2: "numAdd 3 4 = 7"
    using numAdd_exact [of 3 4] by (simp add: numeral_eq_enat)
  have a3: "numAdd 0 9007199254740992 = 9007199254740992"
    using numAdd_exact [of 0 9007199254740992] by (simp add: numeral_eq_enat zero_enat_def)
  have dg: "list_all isDigit (str ''9007199254740993'')" "list_all isDigit (str ''0'')"
    "list_all isDigit (str ''3'')" "list_all isDigit (str ''4'')"
    "str ''9007199254740993'' \<noteq> []" "str ''0'' \<noteq> []" "str ''3'' \<noteq> []" "str ''4'' \<noteq> []"
    by (simp_all add: str_def isDigit_def)
  have p: "list_all isDot (str ''a'')" "list_all isDot (str ''b'')"
    by (simp_all add: str_def isDot_def isLineTerminator_def)
  have l1: "parseNumStatLine ?big =
      Some \<lparr>statFile = str ''a'', changes = 9007199254740992, insertions = 9007199254740992,
        deletions = 0, binary = False\<rparr>"
    using parseNumStatLine_digits [OF dg(5) dg(1) dg(6) dg(2) p(1)] by (simp only: v z a)
  have n1: "nonEmptyLines exBigCount = [?big]"
    by (simp add: nonEmptyLines_def exBigCount_def TAB_def string_defs)
  have f1: "fileStats (parseNumStat exBigCount) =
     [\<lparr>statFile = str ''a'', changes = 9007199254740992, insertions = 9007199254740992,
       deletions = 0, binary = False\<rparr>]"
    unfolding parseNumStat_files n1 by (simp only: List.map_filter_simps l1 option.case)
  have t1: "totalInsertions (parseNumStat exBigCount) = 9007199254740992"
    unfolding parseNumStat_totals f1 by (simp add: a3)
  have l2: "parseNumStatLine (str ''1'' @ TAB @ str ''2'' @ TAB @ str ''a'' @ [13]) = None"
    by (simp add: parseNumStatLine_def NUMSTAT_REGEX_def TAB_def regex_defs string_defs)
  have l3: "parseNumStatLine (str ''3'' @ TAB @ str ''4'' @ TAB @ str ''b'') =
      Some \<lparr>statFile = str ''b'', changes = 7, insertions = 3, deletions = 4, binary = False\<rparr>"
    using parseNumStatLine_digits [OF dg(7) dg(3) dg(8) dg(4) p(2)] by (simp only: z a2)
  have n2: "nonEmptyLines exCarriageReturn =
      [str ''1'' @ TAB @ str ''2'' @ TAB @ str ''a'' @ [13],
       str ''3'' @ TAB @ str ''4'' @ TAB @ str ''b'']"
    by (simp add: nonEmptyLines_def exCarriageReturn_def TAB_def string_defs)
  have f2: "fileStats (parseNumStat exCarriageReturn) =
     [\<lparr>statFile = str ''b'', changes = 7, insertions = 3, deletions = 4, binary = False\<rparr>]"
    unfolding parseNumStat_files n2 by (simp only: List.map_filter_simps l2 l3 option.case)
  have n3: "nonEmptyLines exEmptyPath = [str ''1'' @ TAB @ str ''2'']"
    by (simp add: nonEmptyLines_def exEmptyPath_def TAB_def string_defs)
  have l4: "parseNumStatLine (str ''1'' @ TAB @ str ''2'') = None"
    by (simp add: parseNumStatLine_def NUMSTAT_REGEX_def TAB_def regex_defs string_defs)
  have f3: "fileStats (parseNumStat exEmptyPath) = []"
    unfolding parseNumStat_files n3 by (simp only: List.map_filter_simps l4 option.case)
  have t2: "totalInsertions (parseNumStat exBigCount) \<noteq> 9007199254740993"
    by (simp add: t1)
  show ?thesis
    by (intro conjI d f1 t1 t2 f2 f3)
qed


section \<open>Properties of the status parser\<close>

text \<open>
  C9 (as amended). The status line of the example parses to one change record with
  index \<open>.\<close>, worktree \<open>M\<close> and path \<open>src/app.ts\<close>, whose worktree side maps to
  \<open>Modified\<close>. The table of \<open>getFileStatus\<close> is: \<open>M\<close> modified, \<open>A\<close> added, \<open>D\<close> deleted,
  \<open>R\<close> and \<open>C\<close> renamed, \<open>U\<close> conflicted, \<open>?\<close> untracked, and everything else modified.
\<close>

theorem status_line_and_table:
  "parseStatusSummaryV2 exStatusLine =
     emptyStatusSummary\<lparr>files := [\<lparr>path = str ''src/app.ts'', index = str ''.'',
       workingDir = str ''M'', fromPath = None\<rparr>]\<rparr> \<and>
   getFileStatus (str ''M'') = Modified \<and>
   getFileStatus (str ''A'') = Added \<and>
   getFileStatus (str ''D'') = Deleted \<and>
   getFileStatus (str ''R'') = Renamed \<and>
   getFileStatus (str ''C'') = Renamed \<and>
   getFileStatus (str ''U'') = Conflicted \<and>
   getFileStatus (str ''?'') = Untracked \<and>
   (\<forall>c. c \<notin> set (map str [''M'', ''A'', ''D'', ''R'', ''C'', ''U'', ''?'']) \<longrightarrow>
      getFileStatus c = Modified) \<and>
   map (\<lambda>f. getFileStatus (workingDir f)) (files (parseStatusSummaryV2 exStatusLine)) = [Modified]"
proof -
  have p: "parseStatusSummaryV2 exStatusLine =
     emptyStatusSummary\<lparr>files := [\<lparr>path = str ''src/app.ts'', index = str ''.'',
       workingDir = str ''M'', fromPath = None\<rparr>]\<rparr>"
    by (simp add: exStatusLine_def status_defs regex_defs string_defs)
  have t: "getFileStatus (str ''M'') = Modified" "getFileStatus (str ''A'') = Added"
    "getFileStatus (str ''D'') = Deleted" "getFileStatus (str ''R'') = Renamed"
    "getFileStatus (str ''C'') = Renamed" "getFileStatus (str ''U'') = Conflicted"
    "getFileStatus (str ''?'') = Untracked"
    by (simp_all add: getFileStatus_def str_def)
  have o: "\<forall>c. c \<notin> set (map str [''M'', ''A'', ''D'', ''R'', ''C'', ''U'', ''?'']) \<longrightarrow>
      getFileStatus c = Modified"
    by (simp add: getFileStatus_def)
  show ?thesis
    unfolding p using t o by simp
qed

theorem status_line_and_table_witness:
  "getFileStatus (str ''T'') = Modified"
proof -
  have "str ''T'' \<notin> set (map str [''M'', ''A'', ''D'', ''R'', ''C'', ''U'', ''?''])"
    by (simp add: str_def)
  then show ?thesis
    using status_line_and_table by blast
qed

theorem status_table_counterexample:
  "str ''?'' \<notin> set (map str [''M'', ''A'', ''D'', ''R'', ''C'', ''U'']) \<and>
   getFileStatus (str ''?'') \<noteq> Modified"
  by (simp add: getFileStatus_def str_def)



section \<open>Rename notations of numstat paths\<close>

definition isBrace :: "nat \<Rightarrow> bool" where
  "isBrace c \<longleftrightarrow> c = 0x7B \<or> c = 0x7D"

text \<open>\<open>\s*=>\<close> at the head of a text: the text after it.\<close>

definition arrowAt :: "jsstring \<Rightarrow> jsstring option" where
  "arrowAt s =
     (let r = dropWhile isWhiteSpace s in
      if startsWith r (str ''=>'') then Some (drop 2 r) else None)"

text \<open>
  \<open>\s*([^{}]+?)\}\<close> at the head of a text: the group and the text after the
  brace. The group cannot hold a brace, so it ends where the first brace stands,
  which must be a closing one. The white space before the group is taken greedily,
  but one code unit is left to the group when there is nothing else.
\<close>

definition secondGroup :: "jsstring \<Rightarrow> (jsstring \<times> jsstring) option" where
  "secondGroup s =
     (let seg = takeWhile (\<lambda>c. \<not> isBrace c) s in
      case dropWhile (\<lambda>c. \<not> isBrace c) s of
        [] \<Rightarrow> None
      | c # rest \<Rightarrow>
          if c = 0x7D \<and> seg \<noteq> [] then
            Some (if dropWhile isWhiteSpace seg = [] then [last seg]
                  else dropWhile isWhiteSpace seg, rest)
          else None)"

text \<open>
  \<open>([^{}]+?)\s*=>\s*([^{}]+?)\}\<close> with the first group grown so far to \<open>old\<close>: the
  group is lazy, so the rest of the expression is tried first, and the group takes
  one more code unit when the rest does not match.
\<close>

fun firstGroup :: "jsstring \<Rightarrow> jsstring \<Rightarrow> (jsstring \<times> jsstring \<times> jsstring) option" where
  "firstGroup old s =
     (case (case arrowAt s of None \<Rightarrow> None | Some t \<Rightarrow> secondGroup t) of
        Some (new, rest) \<Rightarrow> Some (old, new, rest)
      | None \<Rightarrow>
          (case s of
             [] \<Rightarrow> None
           | c # cs \<Rightarrow> if isBrace c then None else firstGroup (old @ [c]) cs))"

declare firstGroup.simps [simp del]

text \<open>The expression after an opening brace: both groups and the text left.\<close>

definition braceMatch :: "jsstring \<Rightarrow> (jsstring \<times> jsstring \<times> jsstring) option" where
  "braceMatch s =
     (case s of [] \<Rightarrow> None | c # cs \<Rightarrow> if isBrace c then None else firstGroup [c] cs)"

lemma secondGroup_length: "secondGroup s = Some (g, rest) \<Longrightarrow> length rest < length s"
proof -
  assume a: "secondGroup s = Some (g, rest)"
  then obtain c where "dropWhile (\<lambda>c. \<not> isBrace c) s = c # rest"
    by (auto simp: secondGroup_def Let_def split: list.splits if_splits)
  then have "length (c # rest) \<le> length s"
    by (metis length_dropWhile_le)
  then show ?thesis by simp
qed

lemma arrowAt_length: "arrowAt s = Some t \<Longrightarrow> length t < length s"
proof -
  assume a: "arrowAt s = Some t"
  then have t: "t = drop 2 (dropWhile isWhiteSpace s)"
    and s: "startsWith (dropWhile isWhiteSpace s) (str ''=>'')"
    by (auto simp: arrowAt_def Let_def split: if_splits)
  from s have "2 \<le> length (dropWhile isWhiteSpace s)"
    by (cases "dropWhile isWhiteSpace s" rule: list.exhaust;
        cases "tl (dropWhile isWhiteSpace s)"; simp add: startsWith_def str_def)
  moreover have "length (dropWhile isWhiteSpace s) \<le> length s"
    by (rule length_dropWhile_le)
  ultimately show ?thesis unfolding t by simp
qed

lemma firstGroup_length: "firstGroup old s = Some (g1, g2, rest) \<Longrightarrow> length rest < length s"
proof (induction old s rule: firstGroup.induct)
  case (1 old s)
  show ?case
  proof (cases "case arrowAt s of None \<Rightarrow> None | Some t \<Rightarrow> secondGroup t")
    case None
    with "1.prems" obtain c cs where s: "s = c # cs" and nb: "\<not> isBrace c"
      and r: "firstGroup (old @ [c]) cs = Some (g1, g2, rest)"
      by (subst (asm) firstGroup.simps) (auto split: list.splits if_splits)
    from "1.IH" [OF None s nb r] show ?thesis by (simp add: s)
  next
    case (Some a)
    with "1.prems" have a: "a = (g2, rest)"
      by (subst (asm) firstGroup.simps) (auto split: prod.splits)
    from Some obtain t where "arrowAt s = Some t" "secondGroup t = Some (g2, rest)"
      by (auto simp: a split: option.splits)
    then show ?thesis
      using arrowAt_length secondGroup_length by fastforce
  qed
qed

lemma braceMatch_length: "braceMatch s = Some (g1, g2, rest) \<Longrightarrow> length rest < length s"
proof -
  assume "braceMatch s = Some (g1, g2, rest)"
  then obtain c cs where "s = c # cs" "firstGroup [c] cs = Some (g1, g2, rest)"
    by (auto simp: braceMatch_def split: list.splits if_splits)
  then show ?thesis using firstGroup_length [of "[c]" cs g1 g2 rest] by simp
qed

lemma arrowAt_dropWhile_length:
  "arrowAt s = Some t \<Longrightarrow> length (dropWhile isWhiteSpace t) < length s"
  using arrowAt_length [of s t] length_dropWhile_le [of isWhiteSpace t] by simp

text \<open>
  \<open>text.replace(/\{([^{}]+?)\s*=>\s*([^{}]+?)\}/g, f)\<close>: every match, from the left,
  is replaced by what \<open>f\<close> makes of its two groups.
\<close>

function replaceBraces :: "(jsstring \<Rightarrow> jsstring \<Rightarrow> jsstring) \<Rightarrow> jsstring \<Rightarrow> jsstring" where
  "replaceBraces f [] = []"
| "replaceBraces f (c # cs) =
     (if c = 0x7B then
        (case braceMatch cs of
           Some (old, new, rest) \<Rightarrow> f old new @ replaceBraces f rest
         | None \<Rightarrow> c # replaceBraces f cs)
      else c # replaceBraces f cs)"
  by pat_completeness auto
termination
  by (relation "measure (\<lambda>(f, s). length s)") (auto dest: braceMatch_length)

text \<open>
  \<open>text.split(/\s*=>\s*/)\<close>: the pieces between the matches, \<open>piece\<close> being the
  piece read so far.
\<close>

function splitArrow :: "jsstring \<Rightarrow> jsstring \<Rightarrow> jsstring list" where
  "splitArrow piece [] = [piece]"
| "splitArrow piece (c # cs) =
     (case arrowAt (c # cs) of
        Some t \<Rightarrow> piece # splitArrow [] (dropWhile isWhiteSpace t)
      | None \<Rightarrow> splitArrow (piece @ [c]) cs)"
  by pat_completeness auto
termination
  by (relation "measure (\<lambda>(p, s). length s)") (auto dest: arrowAt_dropWhile_length)

declare replaceBraces.simps [simp del] splitArrow.simps [simp del]

record NumstatPaths =
  newPath :: jsstring
  oldPath :: "jsstring option"

definition normalizeNumstatPath :: "jsstring \<Rightarrow> NumstatPaths" where
  "normalizeNumstatPath rawPath =
     (let trimmed = trim rawPath in
      if includesStr trimmed (str ''{'') \<and> includesStr trimmed (str ''=>'') \<and>
         includesStr trimmed (str ''}'')
      then \<lparr>newPath = replaceBraces (\<lambda>oldPart newPart. trim newPart) trimmed,
            oldPath = Some (replaceBraces (\<lambda>oldPart newPart. trim oldPart) trimmed)\<rparr>
      else if includesStr trimmed (str ''=>'') \<and>
              trim (last (splitArrow [] trimmed)) \<noteq> []
      then \<lparr>newPath = trim (last (splitArrow [] trimmed)),
            oldPath = Some (trim (hd (splitArrow [] trimmed)))\<rparr>
      else \<lparr>newPath = trimmed, oldPath = None\<rparr>)"

text \<open>
  The values of the stats map. The map is a plain object used as a dictionary. The
  model holds the properties that the object owns; under the key \<open>__proto__\<close> it holds
  the stat that the assignment \<open>stats['__proto__'] = stat\<close> makes the prototype of the
  object, which is what \<open>stats['__proto__']\<close> returns from then on. What the object
  returns for a key that was never stored is part of \<open>lookupStat\<close> below.
\<close>

record DiffStat =
  added :: number
  removed :: number
  binaryStat :: bool

definition statOf :: "DiffFileStat \<Rightarrow> DiffStat" where
  "statOf f = \<lparr>added = insertions f, removed = deletions f, binaryStat = binary f\<rparr>"

text \<open>One turn of the loop of \<open>createDiffStatsMap\<close>.\<close>

definition indexFile :: "(jsstring \<rightharpoonup> DiffStat) \<Rightarrow> DiffFileStat \<Rightarrow> (jsstring \<rightharpoonup> DiffStat)" where
  "indexFile stats f =
     (let paths = normalizeNumstatPath (statFile f);
          stats1 = stats(statFile f \<mapsto> statOf f);
          stats2 = (if newPath paths \<noteq> [] \<and> newPath paths \<noteq> statFile f
                    then stats1(newPath paths \<mapsto> statOf f) else stats1)
      in case oldPath paths of
           None \<Rightarrow> stats2
         | Some old \<Rightarrow>
             if old \<noteq> [] \<and> old \<noteq> statFile f \<and> old \<noteq> newPath paths
             then stats2(old \<mapsto> statOf f) else stats2)"

definition createDiffStatsMap :: "DiffSummary \<Rightarrow> (jsstring \<rightharpoonup> DiffStat)" where
  "createDiffStatsMap summary = foldl indexFile Map.empty (fileStats summary)"

lemmas numstat_path_defs = isBrace_def arrowAt_def secondGroup_def braceMatch_def
  normalizeNumstatPath_def firstGroup.simps replaceBraces.simps splitArrow.simps


section \<open>Properties of the rename normalization and of the stats map\<close>





lemma not_includes_tl: "\<not> includesStr (c # cs) p \<Longrightarrow> \<not> includesStr cs p"
  by simp





































section \<open>The status aggregator\<close>

text \<open>
  The fields \<open>repo\<close> and \<open>oldPath\<close> of a file are named \<open>fileRepo\<close> and \<open>fileOldPath\<close> here,
  and the field \<open>branch\<close> of a repository \<open>repoBranch\<close>. \<open>linesAdded\<close> and \<open>linesRemoved\<close>
  are \<open>None\<close> when the source stores \<open>undefined\<close> there.
\<close>

record GitFileStatus =
  fileName :: jsstring
  filePath :: jsstring
  fullPath :: jsstring
  fileRepo :: "jsstring option"
  status :: fileStatus
  isStaged :: bool
  linesAdded :: "number option"
  linesRemoved :: "number option"
  fileOldPath :: "jsstring option"

record GitRepoStatus =
  name :: jsstring
  repoBranch :: "jsstring option"

record GitStatusFiles =
  stagedFiles :: "GitFileStatus list"
  unstagedFiles :: "GitFileStatus list"
  branch :: "jsstring option"
  repos :: "GitRepoStatus list"
  totalStaged :: nat
  totalUnstaged :: nat

definition getRepoKey :: "jsstring option \<Rightarrow> jsstring" where
  "getRepoKey r = (case r of None \<Rightarrow> [] | Some n \<Rightarrow> n)"

text \<open>
  The dictionaries of the aggregator are plain objects, which inherit the properties
  of \<open>Object.prototype\<close>: for a key that was never stored, \<open>obj[key]\<close> is \<open>undefined\<close>
  unless the key is one of these names, the properties that the language standard
  (with its annex for web browsers) gives to \<open>Object.prototype\<close>. All of them are
  functions, except \<open>__proto__\<close>, an accessor that returns the prototype.
\<close>

definition objectPrototypeKeys :: "jsstring list" where
  "objectPrototypeKeys =
     map str [''constructor'', ''hasOwnProperty'', ''isPrototypeOf'', ''propertyIsEnumerable'',
       ''toLocaleString'', ''toString'', ''valueOf'', ''__proto__'', ''__defineGetter__'',
       ''__defineSetter__'', ''__lookupGetter__'', ''__lookupSetter__'']"

text \<open>
  The map holds the properties that the object \<open>result\<close> owns. The assignment
  \<open>result['__proto__'] = text\<close> stores nothing: the setter of \<open>__proto__\<close> ignores a value
  that is no object. Every other key becomes a property of the object.
\<close>

definition buildRepoOutputMap :: "RepoScopedOutput list \<Rightarrow> (jsstring \<rightharpoonup> jsstring)" where
  "buildRepoOutputMap secs =
     foldl (\<lambda>result section.
              if getRepoKey (repo section) = str ''__proto__'' then result
              else result(getRepoKey (repo section) \<mapsto> outputText section))
       Map.empty secs"

text \<open>\<open>!repo\<close> holds of \<open>null\<close> and of the empty string.\<close>

definition withRepoPrefix :: "jsstring option \<Rightarrow> jsstring \<Rightarrow> jsstring" where
  "withRepoPrefix r p =
     (case r of
        None \<Rightarrow> p
      | Some n \<Rightarrow> if n = [] then p else n @ str ''/'' @ p)"

text \<open>
  \<open>stats[path] ?? { added: 0, removed: 0, binary: false }\<close>. For a path that was never
  stored the object returns what it inherits: a member of \<open>Object.prototype\<close> for one
  of its names, and, once a stat was stored under \<open>__proto__\<close> and so became the
  prototype, the number or boolean of that stat for the paths \<open>added\<close>, \<open>removed\<close> and
  \<open>binary\<close>. None of these values is nullish, and none has a property \<open>added\<close> or
  \<open>removed\<close>: the result \<open>None\<close> stands for such a value.
\<close>

definition lookupStat :: "(jsstring \<rightharpoonup> DiffStat) \<Rightarrow> jsstring \<Rightarrow> DiffStat option" where
  "lookupStat stats p =
     (case stats p of
        Some s \<Rightarrow> Some s
      | None \<Rightarrow>
          if p \<in> set objectPrototypeKeys \<or>
             (stats (str ''__proto__'') \<noteq> None \<and>
              p \<in> set (map str [''added'', ''removed'', ''binary'']))
          then None
          else Some \<lparr>added = 0, removed = 0, binaryStat = False\<rparr>)"

text \<open>\<open>parts[parts.length - 1] || p\<close> and \<open>parts.slice(0, -1).join('/')\<close> of
  \<open>parts = p.split('/')\<close>.\<close>

definition baseName :: "jsstring \<Rightarrow> jsstring" where
  "baseName p = (if last (splitOn 0x2F p) = [] then p else last (splitOn 0x2F p))"

definition dirName :: "jsstring \<Rightarrow> jsstring" where
  "dirName p = joinWith (str ''/'') (butlast (splitOn 0x2F p))"

text \<open>The entry that a change record gives to one of the two lists.\<close>

definition fileEntry ::
  "jsstring option \<Rightarrow> GitFileEntryV2 \<Rightarrow> jsstring \<Rightarrow> bool \<Rightarrow> (jsstring \<rightharpoonup> DiffStat) \<Rightarrow>
   GitFileStatus" where
  "fileEntry r f statusChar staged stats =
     \<lparr>fileName = baseName (path f),
      filePath = dirName (path f),
      fullPath = withRepoPrefix r (path f),
      fileRepo = r,
      status = getFileStatus statusChar,
      isStaged = staged,
      linesAdded = map_option added (lookupStat stats (path f)),
      linesRemoved = map_option removed (lookupStat stats (path f)),
      fileOldPath =
        (case fromPath f of
           None \<Rightarrow> None
         | Some fr \<Rightarrow> if fr = [] then None else Some (withRepoPrefix r fr))\<rparr>"

definition stagedOf ::
  "jsstring option \<Rightarrow> (jsstring \<rightharpoonup> DiffStat) \<Rightarrow> GitFileEntryV2 \<Rightarrow> GitFileStatus list" where
  "stagedOf r stagedStats f =
     (if index f \<noteq> str '' '' \<and> index f \<noteq> str ''.'' \<and> index f \<noteq> str ''?''
      then [fileEntry r f (index f) True stagedStats] else [])"

definition unstagedOf ::
  "jsstring option \<Rightarrow> (jsstring \<rightharpoonup> DiffStat) \<Rightarrow> GitFileEntryV2 \<Rightarrow> GitFileStatus list" where
  "unstagedOf r unstagedStats f =
     (if workingDir f \<noteq> str '' '' \<and> workingDir f \<noteq> str ''.''
      then [fileEntry r f (workingDir f) False unstagedStats] else [])"

text \<open>An untracked path that ends in a slash is skipped.\<close>

definition untrackedOf :: "jsstring option \<Rightarrow> jsstring \<Rightarrow> GitFileStatus list" where
  "untrackedOf r untrackedPath =
     (if endsWith untrackedPath (str ''/'') then []
      else [\<lparr>fileName = baseName untrackedPath,
             filePath = dirName untrackedPath,
             fullPath = withRepoPrefix r untrackedPath,
             fileRepo = r,
             status = Untracked,
             isStaged = False,
             linesAdded = Some 0,
             linesRemoved = Some 0,
             fileOldPath = None\<rparr>])"

text \<open>The variables that the loop over the sections changes.\<close>

record BuildState =
  stagedAcc :: "GitFileStatus list"
  unstagedAcc :: "GitFileStatus list"
  reposAcc :: "GitRepoStatus list"
  branchName :: "jsstring option"

text \<open>
  \<open>parseNumStat(map[key] ?? '')\<close> up to the call of \<open>parseNumStat\<close>: the text that is
  parsed. For a key that was never stored and that is a name of \<open>Object.prototype\<close>
  the object returns the inherited member, which is not nullish and is no string;
  \<open>parseNumStat\<close> then calls \<open>trim\<close> on it and throws a \<open>TypeError\<close>, which is the result
  \<open>None\<close>.
\<close>

definition lookupOutput :: "(jsstring \<rightharpoonup> jsstring) \<Rightarrow> jsstring \<Rightarrow> jsstring option" where
  "lookupOutput m k =
     (case m k of
        Some v \<Rightarrow> Some v
      | None \<Rightarrow> if k \<in> set objectPrototypeKeys then None else Some [])"

text \<open>
  What a section does to \<open>repos\<close> and \<open>branchName\<close>: \<open>if (section.repo)\<close> holds of a
  name that is not empty.
\<close>

definition noteBranch :: "bool \<Rightarrow> BuildState \<Rightarrow> RepoScopedOutput \<Rightarrow> BuildState" where
  "noteBranch hasMultiRepoMetadata st section =
     (let currentBranch = getCurrentBranchV2 (parseStatusSummaryV2 (outputText section)) in
      case repo section of
        Some n \<Rightarrow>
          if n \<noteq> [] then st\<lparr>reposAcc := reposAcc st @ [\<lparr>name = n, repoBranch = currentBranch\<rparr>]\<rparr>
          else if \<not> hasMultiRepoMetadata then st\<lparr>branchName := currentBranch\<rparr>
          else st
      | None \<Rightarrow> if \<not> hasMultiRepoMetadata then st\<lparr>branchName := currentBranch\<rparr> else st)"

text \<open>
  One turn of the loop over the sections. The result \<open>None\<close> is the \<open>TypeError\<close> of one
  of the two calls of \<open>parseNumStat\<close>, the one for the staged diff first.
\<close>

definition sectionStep ::
  "bool \<Rightarrow> (jsstring \<rightharpoonup> jsstring) \<Rightarrow> (jsstring \<rightharpoonup> jsstring) \<Rightarrow> BuildState \<Rightarrow>
   RepoScopedOutput \<Rightarrow> BuildState option" where
  "sectionStep hasMultiRepoMetadata unstagedDiffByRepo stagedDiffByRepo st section =
     (let statusSummary = parseStatusSummaryV2 (outputText section);
          st1 = noteBranch hasMultiRepoMetadata st section
      in case lookupOutput stagedDiffByRepo (getRepoKey (repo section)) of
           None \<Rightarrow> None
         | Some stagedText \<Rightarrow>
             (case lookupOutput unstagedDiffByRepo (getRepoKey (repo section)) of
                None \<Rightarrow> None
              | Some unstagedText \<Rightarrow>
                  (let stagedStats = createDiffStatsMap (parseNumStat stagedText);
                       unstagedStats = createDiffStatsMap (parseNumStat unstagedText)
                   in Some (st1\<lparr>stagedAcc := stagedAcc st1 @
                              concat (map (stagedOf (repo section) stagedStats)
                                (files statusSummary)),
                            unstagedAcc := unstagedAcc st1 @
                              concat (map (unstagedOf (repo section) unstagedStats)
                                (files statusSummary)) @
                              concat (map (untrackedOf (repo section))
                                (notAdded statusSummary))\<rparr>))))"

text \<open>The loop over the sections, which an exception ends.\<close>

fun sectionLoop ::
  "bool \<Rightarrow> (jsstring \<rightharpoonup> jsstring) \<Rightarrow> (jsstring \<rightharpoonup> jsstring) \<Rightarrow> BuildState \<Rightarrow>
   RepoScopedOutput list \<Rightarrow> BuildState option" where
  "sectionLoop h unstagedDiffByRepo stagedDiffByRepo st [] = Some st"
| "sectionLoop h unstagedDiffByRepo stagedDiffByRepo st (section # rest) =
     (case sectionStep h unstagedDiffByRepo stagedDiffByRepo st section of
        None \<Rightarrow> None
      | Some st1 \<Rightarrow> sectionLoop h unstagedDiffByRepo stagedDiffByRepo st1 rest)"

definition buildInit :: BuildState where
  "buildInit = \<lparr>stagedAcc = [], unstagedAcc = [], reposAcc = [], branchName = None\<rparr>"

text \<open>\<open>buildGitStatusFiles\<close> returns its result, or throws (\<open>None\<close>) when its loop does.\<close>

definition buildGitStatusFiles ::
  "jsstring \<Rightarrow> jsstring \<Rightarrow> jsstring \<Rightarrow> GitStatusFiles option" where
  "buildGitStatusFiles statusOutput unstagedDiffOutput stagedDiffOutput =
     (let statusSections = splitRepoSections statusOutput;
          unstagedDiffByRepo = buildRepoOutputMap (splitRepoSections unstagedDiffOutput);
          stagedDiffByRepo = buildRepoOutputMap (splitRepoSections stagedDiffOutput);
          hasMultiRepoMetadata = list_ex (\<lambda>section. repo section \<noteq> None) statusSections
      in case sectionLoop hasMultiRepoMetadata unstagedDiffByRepo stagedDiffByRepo
                buildInit statusSections of
           None \<Rightarrow> None
         | Some st \<Rightarrow>
             Some \<lparr>stagedFiles = stagedAcc st,
                   unstagedFiles = unstagedAcc st,
                   branch = (if hasMultiRepoMetadata then None else branchName st),
                   repos = reposAcc st,
                   totalStaged = length (stagedAcc st),
                   totalUnstaged = length (unstagedAcc st)\<rparr>)"

text \<open>The keys of the sections of a text.\<close>

definition sectionKeys :: "jsstring \<Rightarrow> jsstring list" where
  "sectionKeys rawOutput =
     map (\<lambda>section. getRepoKey (repo section)) (splitRepoSections rawOutput)"

text \<open>
  A key for which the dictionary of a diff text returns an inherited member: a name
  of \<open>Object.prototype\<close> that is \<open>__proto__\<close> or that is the key of no section of the
  text.
\<close>

definition inheritedKey :: "jsstring \<Rightarrow> jsstring \<Rightarrow> bool" where
  "inheritedKey diffOutput k \<longleftrightarrow>
     k \<in> set objectPrototypeKeys \<and>
     (k = str ''__proto__'' \<or> k \<notin> set (sectionKeys diffOutput))"

text \<open>The pair that a section gives to \<open>repos\<close>, if any.\<close>

definition repoEntry :: "RepoScopedOutput \<Rightarrow> GitRepoStatus list" where
  "repoEntry section =
     (case repo section of
        None \<Rightarrow> []
      | Some n \<Rightarrow>
          if n = [] then []
          else [\<lparr>name = n,
                 repoBranch = getCurrentBranchV2 (parseStatusSummaryV2 (outputText section))\<rparr>])"

definition exTestStatus :: jsstring where
  "exTestStatus = str ''# branch.oid aaaaaaa'' @ NL @ str ''# branch.head main'' @ NL @
     str ''1 .M N... 100644 100644 100644 aaaaaaa aaaaaaa src/app.ts'' @ NL @
     str ''? new-file.ts''"

definition exTestUnstaged :: jsstring where
  "exTestUnstaged = str ''2'' @ TAB @ str ''1'' @ TAB @ str ''src/app.ts''"

definition exMultiStatus :: jsstring where
  "exMultiStatus =
     str ''@@HAPI_REPO repo-a'' @ NL @ str ''# branch.oid 1111111'' @ NL @
     str ''# branch.head main'' @ NL @
     str ''1 .M N... 100644 100644 100644 1111111 1111111 src/a.ts'' @ NL @
     str ''@@HAPI_REPO_END'' @ NL @
     str ''@@HAPI_REPO repo-b'' @ NL @ str ''# branch.oid 2222222'' @ NL @
     str ''# branch.head feature'' @ NL @ str ''? new-b.ts'' @ NL @ str ''@@HAPI_REPO_END''"

definition exMultiUnstaged :: jsstring where
  "exMultiUnstaged =
     str ''@@HAPI_REPO repo-a'' @ NL @ str ''3'' @ TAB @ str ''1'' @ TAB @ str ''src/a.ts'' @ NL @
     str ''@@HAPI_REPO_END'' @ NL @ str ''@@HAPI_REPO repo-b'' @ NL @ str ''@@HAPI_REPO_END''"

definition exMultiStaged :: jsstring where
  "exMultiStaged =
     str ''@@HAPI_REPO repo-a'' @ NL @ str ''@@HAPI_REPO_END'' @ NL @
     str ''@@HAPI_REPO repo-b'' @ NL @ str ''@@HAPI_REPO_END''"

lemmas build_defs = buildGitStatusFiles_def sectionStep_def noteBranch_def buildInit_def
  lookupOutput_def untrackedOf_def unstagedOf_def stagedOf_def fileEntry_def dirName_def
  baseName_def lookupStat_def withRepoPrefix_def buildRepoOutputMap_def getRepoKey_def
  getCurrentBranchV2_def getFileStatus_def objectPrototypeKeys_def

lemmas numstat_defs = parseNumStat_def numStatStep_def parseNumStatLine_def
  emptyDiffSummary_def NUMSTAT_REGEX_def createDiffStatsMap_def indexFile_def statOf_def
  TAB_def

definition exEmptyName :: jsstring where
  "exEmptyName = str ''@@HAPI_REPO '' @ NL @ str ''# branch.head main'' @ NL @
     str ''@@HAPI_REPO_END''"

text \<open>A status text with one section, of a repository in a directory \<open>__proto__\<close>.\<close>

definition exProtoName :: jsstring where
  "exProtoName = str ''@@HAPI_REPO __proto__'' @ NL @ str ''# branch.head main'' @ NL @
     str ''@@HAPI_REPO_END''"

text \<open>The diff text of that repository, with no change.\<close>

definition exProtoDiff :: jsstring where
  "exProtoDiff = str ''@@HAPI_REPO __proto__'' @ NL @ str ''@@HAPI_REPO_END''"


section \<open>Properties of the status aggregator\<close>

text \<open>Every section that the loop of the splitter pushes has a name.\<close>

lemma flush_named:
  "list_all (\<lambda>s. repo s \<noteq> None) (sections st) \<Longrightarrow>
   list_all (\<lambda>s. repo s \<noteq> None) (sections (flushCurrentSection st))"
  by (simp add: flushCurrentSection_def split: option.splits)

lemma splitStep_named:
  "list_all (\<lambda>s. repo s \<noteq> None) (sections st) \<Longrightarrow>
   list_all (\<lambda>s. repo s \<noteq> None) (sections (splitStep st line))"
  using flush_named [of "st\<lparr>hasMarkers := True\<rparr>"]
  by (simp add: splitStep_def Let_def)

lemma foldl_splitStep_named:
  "list_all (\<lambda>s. repo s \<noteq> None) (sections st) \<Longrightarrow>
   list_all (\<lambda>s. repo s \<noteq> None) (sections (foldl splitStep st ls))"
proof (induction ls arbitrary: st)
  case Nil
  then show ?case by simp
next
  case (Cons l ls)
  show ?case
    using Cons.IH [OF splitStep_named [OF Cons.prems]] by simp
qed

lemma splitRepoSections_cases:
  "splitRepoSections rawOutput = [\<lparr>repo = None, outputText = trim rawOutput\<rparr>] \<or>
   list_all (\<lambda>s. repo s \<noteq> None) (splitRepoSections rawOutput)"
  using flush_named [OF foldl_splitStep_named [of splitInit "splitOn 10 rawOutput"]]
  by (simp add: splitRepoSections_def Let_def splitInit_def)

text \<open>The keys that the dictionary of a diff text owns.\<close>

lemma foldl_outputMap_dom:
  "dom (foldl (\<lambda>result section.
              if getRepoKey (repo section) = p then result
              else result(getRepoKey (repo section) \<mapsto> outputText section)) m secs) =
   dom m \<union> (set (map (\<lambda>section. getRepoKey (repo section)) secs) - {p})"
proof -
  let ?f = "\<lambda>result section.
      if getRepoKey (repo section) = p then result
      else result(getRepoKey (repo section) \<mapsto> outputText section)"
  have step: "\<And>m sec. dom (?f m sec) = dom m \<union> ({getRepoKey (repo sec)} - {p})"
    by auto
  have "dom (foldl ?f m secs) =
      dom m \<union> (set (map (\<lambda>section. getRepoKey (repo section)) secs) - {p})"
  proof (induction secs arbitrary: m)
    case Nil
    then show ?case by simp
  next
    case (Cons sec rest)
    have "dom (foldl ?f m (sec # rest)) = dom (foldl ?f (?f m sec) rest)" by simp
    also have "\<dots> = dom (?f m sec) \<union>
        (set (map (\<lambda>section. getRepoKey (repo section)) rest) - {p})"
      by (rule Cons.IH)
    also have "\<dots> = dom m \<union> ({getRepoKey (repo sec)} - {p}) \<union>
        (set (map (\<lambda>section. getRepoKey (repo section)) rest) - {p})"
      by (simp only: step)
    also have "\<dots> = dom m \<union>
        (set (map (\<lambda>section. getRepoKey (repo section)) (sec # rest)) - {p})"
      by auto
    finally show ?case .
  qed
  then show ?thesis .
qed

lemma buildRepoOutputMap_dom:
  "dom (buildRepoOutputMap (splitRepoSections diffOutput)) =
   set (sectionKeys diffOutput) - {str ''__proto__''}"
  unfolding buildRepoOutputMap_def sectionKeys_def foldl_outputMap_dom by simp

text \<open>The lookup throws for the inherited keys, and for no other.\<close>

lemma lookupOutput_None:
  "lookupOutput (buildRepoOutputMap (splitRepoSections diffOutput)) k = None \<longleftrightarrow>
   inheritedKey diffOutput k"
proof -
  let ?m = "buildRepoOutputMap (splitRepoSections diffOutput)"
  have "k \<in> dom ?m \<longleftrightarrow> k \<in> set (sectionKeys diffOutput) - {str ''__proto__''}"
    by (simp only: buildRepoOutputMap_dom)
  then have m: "?m k = None \<longleftrightarrow> k \<notin> set (sectionKeys diffOutput) - {str ''__proto__''}"
    by (simp only: domIff) blast
  have l: "lookupOutput ?m k = None \<longleftrightarrow> ?m k = None \<and> k \<in> set objectPrototypeKeys"
    by (simp add: lookupOutput_def split: option.splits)
  show ?thesis
    unfolding l m inheritedKey_def by blast
qed

lemma sectionStep_None:
  "sectionStep h u s st section = None \<longleftrightarrow>
   lookupOutput s (getRepoKey (repo section)) = None \<or>
   lookupOutput u (getRepoKey (repo section)) = None"
  by (simp add: sectionStep_def Let_def split: option.splits)

lemma sectionLoop_None:
  "sectionLoop h u s st secs = None \<longleftrightarrow>
   (\<exists>section \<in> set secs.
      lookupOutput s (getRepoKey (repo section)) = None \<or>
      lookupOutput u (getRepoKey (repo section)) = None)"
proof (induction secs arbitrary: st)
  case Nil
  then show ?case by simp
next
  case (Cons sec rest)
  show ?case
  proof (cases "sectionStep h u s st sec")
    case None
    then show ?thesis using sectionStep_None [of h u s st sec] by auto
  next
    case (Some st1)
    then have "lookupOutput s (getRepoKey (repo sec)) \<noteq> None \<and>
        lookupOutput u (getRepoKey (repo sec)) \<noteq> None"
      using sectionStep_None [of h u s st sec] by auto
    then show ?thesis using Some Cons.IH [of st1] by auto
  qed
qed

lemma build_None:
  "buildGitStatusFiles statusOutput unstagedDiffOutput stagedDiffOutput = None \<longleftrightarrow>
   (\<exists>k \<in> set (sectionKeys statusOutput).
      inheritedKey stagedDiffOutput k \<or> inheritedKey unstagedDiffOutput k)"
proof -
  let ?loop = "sectionLoop (list_ex (\<lambda>section. repo section \<noteq> None) (splitRepoSections statusOutput))
      (buildRepoOutputMap (splitRepoSections unstagedDiffOutput))
      (buildRepoOutputMap (splitRepoSections stagedDiffOutput)) buildInit
      (splitRepoSections statusOutput)"
  have "buildGitStatusFiles statusOutput unstagedDiffOutput stagedDiffOutput = None \<longleftrightarrow>
      ?loop = None"
    by (simp add: buildGitStatusFiles_def Let_def split: option.splits)
  also have "\<dots> \<longleftrightarrow> (\<exists>k \<in> set (sectionKeys statusOutput).
      inheritedKey stagedDiffOutput k \<or> inheritedKey unstagedDiffOutput k)"
    unfolding sectionLoop_None lookupOutput_None by (simp add: sectionKeys_def)
  finally show ?thesis .
qed

lemma sectionStep_repos:
  "sectionStep h u s st section = Some st1 \<Longrightarrow>
   reposAcc st1 = reposAcc st @ repoEntry section"
  by (auto simp: sectionStep_def noteBranch_def repoEntry_def Let_def split: option.splits)

lemma sectionLoop_repos:
  "sectionLoop h u s st secs = Some st1 \<Longrightarrow>
   reposAcc st1 = reposAcc st @ concat (map repoEntry secs)"
proof (induction secs arbitrary: st)
  case Nil
  then show ?case by simp
next
  case (Cons sec rest)
  then obtain st2 where 2: "sectionStep h u s st sec = Some st2"
    and l: "sectionLoop h u s st2 rest = Some st1"
    by (auto split: option.splits)
  show ?case using Cons.IH [OF l] sectionStep_repos [OF 2] by simp
qed

lemma sectionStep_branch_unnamed:
  "repo section = None \<Longrightarrow> sectionStep False u s st section = Some st1 \<Longrightarrow>
   branchName st1 = getCurrentBranchV2 (parseStatusSummaryV2 (outputText section))"
  by (auto simp: sectionStep_def noteBranch_def Let_def split: option.splits)

lemma repos_of_build:
  "buildGitStatusFiles statusOutput unstagedDiffOutput stagedDiffOutput = Some r \<Longrightarrow>
   repos r = concat (map repoEntry (splitRepoSections statusOutput))"
  using sectionLoop_repos [of _ _ _ buildInit "splitRepoSections statusOutput"]
  by (auto simp: buildGitStatusFiles_def Let_def buildInit_def split: option.splits)

lemma branch_of_build_named:
  "list_ex (\<lambda>s. repo s \<noteq> None) (splitRepoSections statusOutput) \<Longrightarrow>
   buildGitStatusFiles statusOutput unstagedDiffOutput stagedDiffOutput = Some r \<Longrightarrow>
   branch r = None"
  by (auto simp: buildGitStatusFiles_def Let_def split: option.splits)

text \<open>The key of a section without a name is the empty string, which no object
  inherits: in the legacy mode the aggregator returns.\<close>

lemma build_legacy:
  assumes "splitRepoSections statusOutput = [\<lparr>repo = None, outputText = trim statusOutput\<rparr>]"
  shows "\<exists>r. buildGitStatusFiles statusOutput unstagedDiffOutput stagedDiffOutput = Some r \<and>
     repos r = [] \<and>
     branch r = getCurrentBranchV2 (parseStatusSummaryV2 (trim statusOutput))"
proof -
  have k: "sectionKeys statusOutput = [[]]"
    by (simp add: sectionKeys_def assms getRepoKey_def)
  have "buildGitStatusFiles statusOutput unstagedDiffOutput stagedDiffOutput \<noteq> None"
    unfolding build_None k by (simp add: inheritedKey_def objectPrototypeKeys_def str_def)
  then obtain r where r: "buildGitStatusFiles statusOutput unstagedDiffOutput stagedDiffOutput = Some r"
    by blast
  have 1: "repos r = []"
    using repos_of_build [OF r] by (simp add: assms repoEntry_def)
  have 2: "branch r = getCurrentBranchV2 (parseStatusSummaryV2 (trim statusOutput))"
    using r sectionStep_branch_unnamed [of "\<lparr>repo = None, outputText = trim statusOutput\<rparr>"]
    by (auto simp: buildGitStatusFiles_def Let_def assms split: option.splits)
  show ?thesis using r 1 2 by simp
qed

lemma parse_trim: "parseStatusSummaryV2 (trim s) = parseStatusSummaryV2 s"
  by (simp add: parseStatusSummaryV2_def nonEmptyLines_def trim_idem)

lemma branch_only_legacy:
  assumes "buildGitStatusFiles statusOutput unstagedDiffOutput stagedDiffOutput = Some r"
    and "branch r \<noteq> None"
  shows "splitRepoSections statusOutput = [\<lparr>repo = None, outputText = trim statusOutput\<rparr>]"
proof (rule ccontr)
  assume n: "splitRepoSections statusOutput \<noteq> [\<lparr>repo = None, outputText = trim statusOutput\<rparr>]"
  then have a: "list_all (\<lambda>s. repo s \<noteq> None) (splitRepoSections statusOutput)"
    using splitRepoSections_cases [of statusOutput] by simp
  show False
  proof (cases "splitRepoSections statusOutput")
    case Nil
    then show ?thesis using assms
      by (simp add: buildGitStatusFiles_def Let_def buildInit_def split: option.splits) auto
  next
    case (Cons x xs)
    then have "list_ex (\<lambda>s. repo s \<noteq> None) (splitRepoSections statusOutput)"
      using a by simp
    from branch_of_build_named [OF this assms(1)] show ?thesis using assms(2) by simp
  qed
qed


text \<open>The head that the parser records is never the empty string.\<close>

lemma andThen_lit_restPlus:
  "andThen (lit p) restPlus line =
     (if startsWith line (str p) \<and> drop (length p) line \<noteq> [] \<and>
         list_all isDot (drop (length p) line)
      then Some ([drop (length p) line], []) else None)"
  by (simp add: andThen_def lit_def restPlus_def)

lemma exec_restPlus:
  "exec (andThen (lit p) restPlus) line = Some m \<Longrightarrow> m ! 1 \<noteq> []"
  by (auto simp: exec_def andThen_lit_restPlus split: if_splits)

lemma pushFile_head: "head (branchInfo (pushFile st e)) = head (branchInfo st)"
  by (simp add: pushFile_def split: option.splits)

lemma statusStep_head:
  assumes "head (branchInfo st) \<noteq> Some []"
  shows "head (branchInfo (statusStep st line)) \<noteq> Some []"
proof -
  define Q where "Q = (\<lambda>x :: GitStatusSummaryV2. head (branchInfo x) \<noteq> Some [])"
  have if_I: "\<And>c a b. Q a \<Longrightarrow> Q b \<Longrightarrow> Q (if c then a else b)" by simp
  have case_I: "\<And>x a f. Q a \<Longrightarrow> (\<And>m. x = Some m \<Longrightarrow> Q (f m)) \<Longrightarrow>
      Q (case x of None \<Rightarrow> a | Some m \<Rightarrow> f m)"
    by (simp split: option.splits)
  have st: "Q st" using assms by (simp add: Q_def)
  have push: "\<And>e. Q (pushFile st e)" using assms by (simp add: Q_def pushFile_head)
  have hd: "\<And>m. exec BRANCH_HEAD_REGEX line = Some m \<Longrightarrow>
      Q (st\<lparr>branchInfo := (branchInfo st)\<lparr>head := Some (m ! 1)\<rparr>\<rparr>)"
    using exec_restPlus [of "''# branch.head ''" line]
    by (simp add: Q_def BRANCH_HEAD_REGEX_def)
  have others: "\<And>v. Q (st\<lparr>branchInfo := (branchInfo st)\<lparr>oid := v\<rparr>\<rparr>)"
    "\<And>v. Q (st\<lparr>branchInfo := (branchInfo st)\<lparr>upstream := v\<rparr>\<rparr>)"
    "\<And>v w. Q (st\<lparr>branchInfo := (branchInfo st)\<lparr>ahead := v, behind := w\<rparr>\<rparr>)"
    "\<And>v. Q (st\<lparr>notAdded := v\<rparr>)" "\<And>v. Q (st\<lparr>ignored := v\<rparr>)"
    using assms by (simp_all add: Q_def)
  have "Q (statusStep st line)"
    unfolding statusStep_def
    by (intro if_I case_I st push hd others)
  then show ?thesis by (simp add: Q_def)
qed

lemma foldl_statusStep_head:
  "head (branchInfo st) \<noteq> Some [] \<Longrightarrow>
   head (branchInfo (foldl statusStep st ls)) \<noteq> Some []"
proof (induction ls arbitrary: st)
  case Nil
  then show ?case by simp
next
  case (Cons l ls)
  show ?case using Cons.IH [OF statusStep_head [OF Cons.prems]] by simp
qed

lemma parsed_head_nonempty: "head (branchInfo (parseStatusSummaryV2 s)) \<noteq> Some []"
  unfolding parseStatusSummaryV2_def
  by (rule foldl_statusStep_head) (simp add: emptyStatusSummary_def)

text \<open>The first test of the parser module: a status text with no marker.\<close>

lemma test_legacy_sections: "splitRepoSections exTestStatus = [\<lparr>repo = None, outputText = exTestStatus\<rparr>]"
  by (simp add: splitRepoSections_def exTestStatus_def string_defs framing_defs)

lemma test_legacy_status: "parseStatusSummaryV2 exTestStatus =
  \<lparr>files = [\<lparr>path = str ''src/app.ts'', index = str ''.'', workingDir = str ''M'', fromPath = None\<rparr>],
   notAdded = [str ''new-file.ts''], ignored = [],
   branchInfo = \<lparr>oid = Some (str ''aaaaaaa''), head = Some (str ''main''), upstream = None,
     ahead = None, behind = None\<rparr>\<rparr>"
  by (simp add: exTestStatus_def status_defs regex_defs string_defs)

lemma test_legacy_stats: "createDiffStatsMap (parseNumStat exTestUnstaged) =
   [str ''src/app.ts'' \<mapsto> \<lparr>added = 2, removed = 1, binaryStat = False\<rparr>]"
proof -
  have x: "exactNumber 2" "exactNumber 1" "exactNumber (2 + 1)"
    by (simp_all add: exactNumber_small)
  have p: "list_all isDot (str ''src/app.ts'')"
    by (simp add: str_def isDot_def isLineTerminator_def)
  have d: "str ''2'' @ TAB @ str ''1'' @ TAB @ str ''src/app.ts'' =
      decimal 2 @ TAB @ decimal 1 @ TAB @ str ''src/app.ts''"
    by (simp add: decimal.simps str_def)
  have e: "enat (2 + 1) = 3" "enat 2 = 2" "enat 1 = 1"
    by (simp_all add: numeral_eq_enat one_enat_def)
  have l: "parseNumStatLine (str ''2'' @ TAB @ str ''1'' @ TAB @ str ''src/app.ts'') =
     Some \<lparr>statFile = str ''src/app.ts'', changes = 3, insertions = 2, deletions = 1,
           binary = False\<rparr>"
    using parseNumStatLine_decimal [OF x p] by (simp only: d e)
  have n: "nonEmptyLines exTestUnstaged = [str ''2'' @ TAB @ str ''1'' @ TAB @ str ''src/app.ts'']"
    by (simp add: nonEmptyLines_def exTestUnstaged_def TAB_def string_defs)
  have f: "fileStats (parseNumStat exTestUnstaged) =
      [\<lparr>statFile = str ''src/app.ts'', changes = 3, insertions = 2, deletions = 1,
           binary = False\<rparr>]"
    unfolding parseNumStat_files n by (simp only: List.map_filter_simps l option.case)
  show ?thesis
    unfolding createDiffStatsMap_def f
    by (simp add: indexFile_def statOf_def numstat_path_defs string_defs)
qed

lemma test_legacy_result: "buildGitStatusFiles exTestStatus exTestUnstaged [] =
  Some \<lparr>stagedFiles = [],
   unstagedFiles =
     [\<lparr>fileName = str ''app.ts'', filePath = str ''src'', fullPath = str ''src/app.ts'',
       fileRepo = None, status = Modified, isStaged = False, linesAdded = Some 2,
       linesRemoved = Some 1, fileOldPath = None\<rparr>,
      \<lparr>fileName = str ''new-file.ts'', filePath = [], fullPath = str ''new-file.ts'',
       fileRepo = None, status = Untracked, isStaged = False, linesAdded = Some 0,
       linesRemoved = Some 0, fileOldPath = None\<rparr>],
   branch = Some (str ''main''), repos = [], totalStaged = 0, totalUnstaged = 2\<rparr>"
proof -
  have u: "splitRepoSections exTestUnstaged = [\<lparr>repo = None, outputText = exTestUnstaged\<rparr>]"
    by (simp add: splitRepoSections_def exTestUnstaged_def TAB_def string_defs framing_defs)
  have e: "splitRepoSections [] = [\<lparr>repo = None, outputText = []\<rparr>]"
    by (simp add: splitRepoSections_def string_defs framing_defs)
  have n: "createDiffStatsMap (parseNumStat []) = Map.empty"
    by (simp add: parseNumStat_def emptyDiffSummary_def createDiffStatsMap_def
        nonEmptyLines_def string_defs numStatStep_def parseNumStatLine_def NUMSTAT_REGEX_def
        regex_defs)
  have k: "[] \<notin> set objectPrototypeKeys" by (simp add: objectPrototypeKeys_def str_def)
  have lu: "lookupOutput (buildRepoOutputMap [\<lparr>repo = None, outputText = exTestUnstaged\<rparr>]) [] =
      Some exTestUnstaged"
    by (simp add: lookupOutput_def buildRepoOutputMap_def getRepoKey_def str_def)
  have ls: "lookupOutput (buildRepoOutputMap [\<lparr>repo = None, outputText = []\<rparr>]) [] = Some []"
    by (simp add: lookupOutput_def buildRepoOutputMap_def getRepoKey_def str_def)
  have pk: "str ''src/app.ts'' \<notin> set objectPrototypeKeys"
    by (simp add: objectPrototypeKeys_def str_def)
  have st: "lookupStat Map.empty (str ''src/app.ts'') =
      Some \<lparr>added = 0, removed = 0, binaryStat = False\<rparr>"
    "lookupStat [str ''src/app.ts'' \<mapsto> \<lparr>added = 2, removed = 1, binaryStat = False\<rparr>]
       (str ''src/app.ts'') = Some \<lparr>added = 2, removed = 1, binaryStat = False\<rparr>"
    using pk by (simp_all add: lookupStat_def)
  have step: "sectionStep False (buildRepoOutputMap [\<lparr>repo = None, outputText = exTestUnstaged\<rparr>])
      (buildRepoOutputMap [\<lparr>repo = None, outputText = []\<rparr>]) buildInit
      \<lparr>repo = None, outputText = exTestStatus\<rparr> =
    Some \<lparr>stagedAcc = [],
      unstagedAcc =
     [\<lparr>fileName = str ''app.ts'', filePath = str ''src'', fullPath = str ''src/app.ts'',
       fileRepo = None, status = Modified, isStaged = False, linesAdded = Some 2,
       linesRemoved = Some 1, fileOldPath = None\<rparr>,
      \<lparr>fileName = str ''new-file.ts'', filePath = [], fullPath = str ''new-file.ts'',
       fileRepo = None, status = Untracked, isStaged = False, linesAdded = Some 0,
       linesRemoved = Some 0, fileOldPath = None\<rparr>],
      reposAcc = [], branchName = Some (str ''main'')\<rparr>"
    unfolding sectionStep_def
    by (simp add: getRepoKey_def [of None] lu ls test_legacy_status test_legacy_stats n
        st [unfolded str_def, simplified] noteBranch_def buildInit_def untrackedOf_def unstagedOf_def stagedOf_def fileEntry_def
        dirName_def baseName_def withRepoPrefix_def getCurrentBranchV2_def getFileStatus_def
        str_def endsWith_def)
  show ?thesis
    unfolding buildGitStatusFiles_def test_legacy_sections u e Let_def
    by (simp add: step)
qed

text \<open>
  C4 (as amended). The aggregator returns whenever no section of the status text is
  named by a property name that plain objects inherit. Whenever it returns, \<open>branch\<close>
  is set only when exactly one section without a name was parsed: if a section of
  the status text has a name, \<open>branch\<close> is null; \<open>repos\<close> holds, in order, one pair of
  name and branch for each section whose name is not the empty string
  (\<open>repoEntry\<close>). When the status text has no marker line, the aggregator returns,
  \<open>repos\<close> is empty and \<open>branch\<close> is the head that the parser read, where no head and
  the heads \<open>(detached)\<close> and \<open>(initial)\<close> give null.
\<close>

theorem buildGitStatusFiles_branch:
  "((\<forall>k \<in> set (sectionKeys statusOutput). k \<notin> set objectPrototypeKeys) \<longrightarrow>
      (\<exists>r. buildGitStatusFiles statusOutput unstagedDiffOutput stagedDiffOutput = Some r)) \<and>
   (\<forall>r. buildGitStatusFiles statusOutput unstagedDiffOutput stagedDiffOutput = Some r \<longrightarrow>
      (branch r \<noteq> None \<longrightarrow>
         splitRepoSections statusOutput = [\<lparr>repo = None, outputText = trim statusOutput\<rparr>]) \<and>
      (list_ex (\<lambda>section. repo section \<noteq> None) (splitRepoSections statusOutput) \<longrightarrow>
         branch r = None) \<and>
      repos r = concat (map repoEntry (splitRepoSections statusOutput))) \<and>
   (list_all (\<lambda>l. \<not> isMarkerLine l) (splitOn 10 statusOutput) \<longrightarrow>
      (\<exists>r. buildGitStatusFiles statusOutput unstagedDiffOutput stagedDiffOutput = Some r \<and>
         repos r = [] \<and>
         branch r =
           (case head (branchInfo (parseStatusSummaryV2 statusOutput)) of
              None \<Rightarrow> None
            | Some h \<Rightarrow> if h = str ''(detached)'' \<or> h = str ''(initial)'' then None else Some h)))"
proof -
  let ?B = "buildGitStatusFiles statusOutput unstagedDiffOutput stagedDiffOutput"
  have 1: "(\<forall>k \<in> set (sectionKeys statusOutput). k \<notin> set objectPrototypeKeys) \<longrightarrow>
      (\<exists>r. ?B = Some r)"
  proof
    assume a: "\<forall>k \<in> set (sectionKeys statusOutput). k \<notin> set objectPrototypeKeys"
    have "?B \<noteq> None"
      unfolding build_None using a by (auto simp: inheritedKey_def)
    then show "\<exists>r. ?B = Some r" by blast
  qed
  have 2: "\<forall>r. ?B = Some r \<longrightarrow>
      (branch r \<noteq> None \<longrightarrow>
         splitRepoSections statusOutput = [\<lparr>repo = None, outputText = trim statusOutput\<rparr>]) \<and>
      (list_ex (\<lambda>section. repo section \<noteq> None) (splitRepoSections statusOutput) \<longrightarrow>
         branch r = None) \<and>
      repos r = concat (map repoEntry (splitRepoSections statusOutput))"
    using branch_only_legacy branch_of_build_named repos_of_build by blast
  have 3: "list_all (\<lambda>l. \<not> isMarkerLine l) (splitOn 10 statusOutput) \<longrightarrow>
      (\<exists>r. ?B = Some r \<and> repos r = [] \<and>
         branch r =
           (case head (branchInfo (parseStatusSummaryV2 statusOutput)) of
              None \<Rightarrow> None
            | Some h \<Rightarrow> if h = str ''(detached)'' \<or> h = str ''(initial)'' then None else Some h))"
  proof
    assume "list_all (\<lambda>l. \<not> isMarkerLine l) (splitOn 10 statusOutput)"
    then have l: "splitRepoSections statusOutput = [\<lparr>repo = None, outputText = trim statusOutput\<rparr>]"
      using foldl_splitStep_plain [of "splitOn 10 statusOutput" splitInit]
      by (simp add: splitRepoSections_def splitInit_def Let_def)
    from build_legacy [OF l, of unstagedDiffOutput stagedDiffOutput]
    obtain r where r: "?B = Some r" "repos r = []"
      "branch r = getCurrentBranchV2 (parseStatusSummaryV2 (trim statusOutput))"
      by blast
    have "branch r =
           (case head (branchInfo (parseStatusSummaryV2 statusOutput)) of
              None \<Rightarrow> None
            | Some h \<Rightarrow> if h = str ''(detached)'' \<or> h = str ''(initial)'' then None else Some h)"
      using r(3) parsed_head_nonempty [of statusOutput]
      by (auto simp: parse_trim getCurrentBranchV2_def split: option.splits)
    then show "\<exists>r. ?B = Some r \<and> repos r = [] \<and>
         branch r =
           (case head (branchInfo (parseStatusSummaryV2 statusOutput)) of
              None \<Rightarrow> None
            | Some h \<Rightarrow> if h = str ''(detached)'' \<or> h = str ''(initial)'' then None else Some h)"
      using r(1,2) by blast
  qed
  show ?thesis by (intro conjI 1 2 3)
qed

theorem buildGitStatusFiles_branch_witness:
  "map_option branch (buildGitStatusFiles exTestStatus exTestUnstaged []) =
     Some (Some (str ''main'')) \<and>
   map_option repos (buildGitStatusFiles exTestStatus exTestUnstaged []) = Some [] \<and>
   splitRepoSections exTestStatus = [\<lparr>repo = None, outputText = trim exTestStatus\<rparr>] \<and>
   map_option branch (buildGitStatusFiles exMultiStatus exMultiUnstaged exMultiStaged) =
     Some None \<and>
   map_option repos (buildGitStatusFiles exMultiStatus exMultiUnstaged exMultiStaged) =
     Some [\<lparr>name = str ''repo-a'', repoBranch = Some (str ''main'')\<rparr>,
           \<lparr>name = str ''repo-b'', repoBranch = Some (str ''feature'')\<rparr>]"
proof -
  note l = buildGitStatusFiles_branch [of exTestStatus exTestUnstaged "[]"]
  note m = buildGitStatusFiles_branch [of exMultiStatus exMultiUnstaged exMultiStaged]
  have nm: "list_all (\<lambda>l. \<not> isMarkerLine l) (splitOn 10 exTestStatus)"
    by (simp add: exTestStatus_def string_defs framing_defs)
  have h: "head (branchInfo (parseStatusSummaryV2 exTestStatus)) = Some (str ''main'')"
    by (simp add: exTestStatus_def status_defs regex_defs string_defs)
  from l [THEN conjunct2, THEN conjunct2, rule_format, OF nm]
  obtain r1 where r1: "buildGitStatusFiles exTestStatus exTestUnstaged [] = Some r1"
    "repos r1 = []" "branch r1 = Some (str ''main'')"
    by (auto simp: h str_def)
  have l2: "splitRepoSections exTestStatus = [\<lparr>repo = None, outputText = trim exTestStatus\<rparr>]"
    using l [THEN conjunct2, THEN conjunct1, rule_format, OF r1(1), THEN conjunct1] r1(3)
    by simp
  have ms: "splitRepoSections exMultiStatus =
      [\<lparr>repo = Some (str ''repo-a''),
        outputText = str ''# branch.oid 1111111'' @ NL @ str ''# branch.head main'' @ NL @
          str ''1 .M N... 100644 100644 100644 1111111 1111111 src/a.ts''\<rparr>,
       \<lparr>repo = Some (str ''repo-b''),
        outputText = str ''# branch.oid 2222222'' @ NL @ str ''# branch.head feature'' @ NL @
          str ''? new-b.ts''\<rparr>]"
    by (simp add: splitRepoSections_def exMultiStatus_def string_defs framing_defs uri_defs)
  have e1: "repoEntry \<lparr>repo = Some (str ''repo-a''),
        outputText = str ''# branch.oid 1111111'' @ NL @ str ''# branch.head main'' @ NL @
          str ''1 .M N... 100644 100644 100644 1111111 1111111 src/a.ts''\<rparr> =
      [\<lparr>name = str ''repo-a'', repoBranch = Some (str ''main'')\<rparr>]"
    by (simp add: repoEntry_def getCurrentBranchV2_def status_defs regex_defs string_defs)
  have e2: "repoEntry \<lparr>repo = Some (str ''repo-b''),
        outputText = str ''# branch.oid 2222222'' @ NL @ str ''# branch.head feature'' @ NL @
          str ''? new-b.ts''\<rparr> =
      [\<lparr>name = str ''repo-b'', repoBranch = Some (str ''feature'')\<rparr>]"
    by (simp add: repoEntry_def getCurrentBranchV2_def status_defs regex_defs string_defs)
  have mk: "sectionKeys exMultiStatus = [str ''repo-a'', str ''repo-b'']"
    by (simp add: sectionKeys_def ms getRepoKey_def)
  have nk: "\<forall>k \<in> set (sectionKeys exMultiStatus). k \<notin> set objectPrototypeKeys"
    unfolding mk by (simp add: objectPrototypeKeys_def str_def)
  from m [THEN conjunct1, THEN mp, OF nk]
  obtain r2 where r2: "buildGitStatusFiles exMultiStatus exMultiUnstaged exMultiStaged = Some r2"
    by blast
  note m2 = m [THEN conjunct2, THEN conjunct1, rule_format, OF r2]
  have b2: "branch r2 = None"
    using m2 [THEN conjunct2, THEN conjunct1] by (simp add: ms)
  have p2: "repos r2 =
        [\<lparr>name = str ''repo-a'', repoBranch = Some (str ''main'')\<rparr>,
         \<lparr>name = str ''repo-b'', repoBranch = Some (str ''feature'')\<rparr>]"
    using m2 [THEN conjunct2, THEN conjunct2] by (simp add: ms e1 e2)
  show ?thesis
    by (simp add: r1 l2 r2 b2 p2)
qed

text \<open>
  Against the claim as the specification words it: a section with the empty name
  gives no pair to \<open>repos\<close>, and for a section named \<open>__proto__\<close> the aggregator
  throws and gives no result at all.
\<close>

theorem buildGitStatusFiles_counterexample:
  "splitRepoSections exEmptyName =
     [\<lparr>repo = Some [], outputText = str ''# branch.head main''\<rparr>] \<and>
   buildGitStatusFiles exEmptyName [] [] =
     Some \<lparr>stagedFiles = [], unstagedFiles = [], branch = None, repos = [], totalStaged = 0,
           totalUnstaged = 0\<rparr> \<and>
   splitRepoSections exProtoName =
     [\<lparr>repo = Some (str ''__proto__''), outputText = str ''# branch.head main''\<rparr>] \<and>
   buildGitStatusFiles exProtoName exProtoDiff exProtoDiff = None"
proof -
  have s: "splitRepoSections exEmptyName =
     [\<lparr>repo = Some [], outputText = str ''# branch.head main''\<rparr>]"
    by (simp add: splitRepoSections_def exEmptyName_def string_defs framing_defs uri_defs)
  have e: "splitRepoSections [] = [\<lparr>repo = None, outputText = []\<rparr>]"
    by (simp add: splitRepoSections_def string_defs framing_defs)
  have ps0: "parseStatusSummaryV2 (str ''# branch.head main'') =
      emptyStatusSummary\<lparr>branchInfo := (branchInfo emptyStatusSummary)\<lparr>head := Some (str ''main'')\<rparr>\<rparr>"
    by (simp add: status_defs regex_defs string_defs)
  have lo: "lookupOutput (buildRepoOutputMap [\<lparr>repo = None, outputText = []\<rparr>]) [] = Some []"
    by (simp add: lookupOutput_def buildRepoOutputMap_def getRepoKey_def str_def)
  have step: "sectionStep True (buildRepoOutputMap [\<lparr>repo = None, outputText = []\<rparr>])
      (buildRepoOutputMap [\<lparr>repo = None, outputText = []\<rparr>]) buildInit
      \<lparr>repo = Some [], outputText = str ''# branch.head main''\<rparr> = Some buildInit"
    unfolding sectionStep_def
    by (simp add: getRepoKey_def lo ps0 noteBranch_def buildInit_def emptyStatusSummary_def)
  have r: "buildGitStatusFiles exEmptyName [] [] =
     Some \<lparr>stagedFiles = [], unstagedFiles = [], branch = None, repos = [], totalStaged = 0,
           totalUnstaged = 0\<rparr>"
    unfolding buildGitStatusFiles_def s e Let_def
    by (simp add: step) (simp add: buildInit_def)
  have ps: "splitRepoSections exProtoName =
     [\<lparr>repo = Some (str ''__proto__''), outputText = str ''# branch.head main''\<rparr>]"
    by (simp add: splitRepoSections_def exProtoName_def string_defs framing_defs uri_defs)
  have pk: "sectionKeys exProtoName = [str ''__proto__'']"
    by (simp add: sectionKeys_def ps getRepoKey_def)
  have p: "buildGitStatusFiles exProtoName exProtoDiff exProtoDiff = None"
    unfolding build_None pk by (simp add: inheritedKey_def objectPrototypeKeys_def)
  show ?thesis
    by (intro conjI s r ps p)
qed


section \<open>Discovery of nested repositories\<close>

text \<open>
  A directory below the scan root is named by its path from the root, the list of
  the names on the way. \<open>join(current.path, entry.name)\<close> adds a name to the path, and
  \<open>toPosixPath(relative(baseCwd, current.path))\<close> is the names joined by slashes. The
  file system is what the two calls of the scan observe of it: whether \<open>lstat\<close> finds
  a file or a directory called \<open>.git\<close> in a directory, and the entries that \<open>readdir\<close>
  lists (each a name and whether it is a directory), or \<open>None\<close> when \<open>readdir\<close> throws.
\<close>

type_synonym path = "jsstring list"

record FileSystem =
  hasGitMetadata :: "path \<Rightarrow> bool"
  readdir :: "path \<Rightarrow> (jsstring \<times> bool) list option"

definition MAX_DISCOVERY_DEPTH :: nat where
  "MAX_DISCOVERY_DEPTH = 4"

definition MAX_DISCOVERY_REPOS :: nat where
  "MAX_DISCOVERY_REPOS = 64"

definition MAX_DISCOVERY_DIRECTORIES :: nat where
  "MAX_DISCOVERY_DIRECTORIES = 2000"

definition SKIPPED_DIRECTORY_NAMES :: "jsstring list" where
  "SKIPPED_DIRECTORY_NAMES =
     map str [''.git'', ''node_modules'', ''.idea'', ''.vscode'', ''dist'', ''build'', ''target'',
       ''.next'', ''.cache'', ''.turbo'', ''.pnpm-store'', ''coverage'']"

definition shouldSkipDirectory :: "jsstring \<Rightarrow> bool" where
  "shouldSkipDirectory n \<longleftrightarrow>
     n = str ''.git'' \<or> n \<in> set SKIPPED_DIRECTORY_NAMES \<or> startsWith n (str ''.'')"

record QueueItem =
  itemPath :: path
  depth :: nat

record DiscoveredGitRepo =
  absolutePath :: path
  relativePath :: jsstring

text \<open>The variables of \<open>discoverNestedGitRepos\<close> that its loop changes.\<close>

record ScanState =
  queue :: "QueueItem list"
  scanIndex :: nat
  discovered :: "DiscoveredGitRepo list"
  scannedDirectories :: nat

text \<open>The directories among the entries that are not skipped, as queue items.\<close>

definition childItems :: "QueueItem \<Rightarrow> (jsstring \<times> bool) list \<Rightarrow> QueueItem list" where
  "childItems current entries =
     map (\<lambda>(n, isDir). \<lparr>itemPath = itemPath current @ [n], depth = depth current + 1\<rparr>)
       (filter (\<lambda>(n, isDir). isDir \<and> \<not> shouldSkipDirectory n) entries)"

text \<open>
  The body of the loop, after its two checks of the bounds, and the step of the
  index. (\<open>current\<close> is never undefined, since the index is below the length.)
\<close>

definition scanStep :: "FileSystem \<Rightarrow> ScanState \<Rightarrow> ScanState" where
  "scanStep fs st =
     (let current = queue st ! scanIndex st;
          st1 = st\<lparr>scannedDirectories := scannedDirectories st + 1, scanIndex := scanIndex st + 1\<rparr>
      in if 0 < depth current \<and> hasGitMetadata fs (itemPath current) then
           (let relPath = joinWith (str ''/'') (itemPath current) in
            if relPath \<noteq> [] \<and> \<not> startsWith relPath (str ''..'')
            then st1\<lparr>discovered := discovered st1 @
                   [\<lparr>absolutePath = itemPath current, relativePath = relPath\<rparr>]\<rparr>
            else st1)
         else if MAX_DISCOVERY_DEPTH \<le> depth current then st1
         else
           (case readdir fs (itemPath current) of
              None \<Rightarrow> st1
            | Some entries \<Rightarrow> st1\<lparr>queue := queue st1 @ childItems current entries\<rparr>))"

text \<open>Every turn of the loop counts one more directory, so the loop ends.\<close>

lemma scanStep_scanned: "scannedDirectories (scanStep fs st) = scannedDirectories st + 1"
  by (simp add: scanStep_def Let_def split: option.splits)

function scanLoop :: "FileSystem \<Rightarrow> ScanState \<Rightarrow> ScanState" where
  "scanLoop fs st =
     (if scanIndex st < length (queue st) then
        if MAX_DISCOVERY_REPOS \<le> length (discovered st) then st
        else if MAX_DISCOVERY_DIRECTORIES \<le> scannedDirectories st then st
        else scanLoop fs (scanStep fs st)
      else st)"
  by pat_completeness auto

termination
  by (relation "measure (\<lambda>(fs, st). MAX_DISCOVERY_DIRECTORIES - scannedDirectories st)")
    (simp_all add: scanStep_scanned)

declare scanLoop.simps [simp del]

definition scanInit :: ScanState where
  "scanInit = \<lparr>queue = [\<lparr>itemPath = [], depth = 0\<rparr>], scanIndex = 0, discovered = [],
     scannedDirectories = 0\<rparr>"

text \<open>
  \<open>Array.prototype.sort\<close> with a comparison function is stable, and sorts when the
  function is a consistent comparator; it is modelled by insertion from the right.
\<close>

fun insertBy :: "('a \<Rightarrow> 'a \<Rightarrow> int) \<Rightarrow> 'a \<Rightarrow> 'a list \<Rightarrow> 'a list" where
  "insertBy c x [] = [x]"
| "insertBy c x (y # ys) = (if c x y \<le> 0 then x # y # ys else y # insertBy c x ys)"

definition sortBy :: "('a \<Rightarrow> 'a \<Rightarrow> int) \<Rightarrow> 'a list \<Rightarrow> 'a list" where
  "sortBy c xs = foldr (insertBy c) xs []"

text \<open>
  \<open>String.prototype.localeCompare\<close> is the collation of the host for its default
  locale; it is the parameter \<open>localeCompare\<close> of the model.
\<close>

definition discoverNestedGitRepos ::
  "(jsstring \<Rightarrow> jsstring \<Rightarrow> int) \<Rightarrow> FileSystem \<Rightarrow> DiscoveredGitRepo list" where
  "discoverNestedGitRepos localeCompare fs =
     sortBy (\<lambda>a b. localeCompare (relativePath a) (relativePath b))
       (discovered (scanLoop fs scanInit))"

text \<open>The comparison of two strings by their code units.\<close>

fun ordinalLe :: "jsstring \<Rightarrow> jsstring \<Rightarrow> bool" where
  "ordinalLe [] ys = True"
| "ordinalLe (x # xs) [] = False"
| "ordinalLe (x # xs) (y # ys) = (x < y \<or> (x = y \<and> ordinalLe xs ys))"

definition ordinalCompare :: "jsstring \<Rightarrow> jsstring \<Rightarrow> int" where
  "ordinalCompare a b = (if a = b then 0 else if ordinalLe a b then - 1 else 1)"

text \<open>
  A collation of a host, on names of ASCII letters: the root collation of ICU, which
  Node.js uses by default, compares such names letter by letter without regard to
  case, and puts lower case before upper case among names that are equal so. The
  key of a name is its letters in lower case, an end mark, and the case of each
  letter.
\<close>

definition isUpperASCII :: "nat \<Rightarrow> bool" where
  "isUpperASCII c \<longleftrightarrow> 0x41 \<le> c \<and> c \<le> 0x5A"

definition collationKey :: "jsstring \<Rightarrow> jsstring" where
  "collationKey s =
     map (\<lambda>c. if isUpperASCII c then c + 0x20 else c) s @ [0] @
     map (\<lambda>c. if isUpperASCII c then 1 else 0) s"

definition letterCollate :: "jsstring \<Rightarrow> jsstring \<Rightarrow> int" where
  "letterCollate a b = ordinalCompare (collationKey a) (collationKey b)"

text \<open>A comparison function that \<open>sort\<close> can sort by: it compares any two strings one
  way or the other, and transitively.\<close>

definition consistentComparator :: "(jsstring \<Rightarrow> jsstring \<Rightarrow> int) \<Rightarrow> bool" where
  "consistentComparator c \<longleftrightarrow>
     (\<forall>a b. c a b \<le> 0 \<or> c b a \<le> 0) \<and> (\<forall>a b d. c a b \<le> 0 \<and> c b d \<le> 0 \<longrightarrow> c a d \<le> 0)"

text \<open>Two file systems for the examples.\<close>

definition exFs :: FileSystem where
  "exFs =
     \<lparr>hasGitMetadata = (\<lambda>p. p = [str ''z''] \<or> p = [str ''z'', str ''inner''] \<or>
        p = [str ''a'', str ''d'']),
      readdir = (\<lambda>p.
        if p = [] then
          Some [(str ''z'', True), (str ''node_modules'', True), (str ''a'', True),
                (str ''file.txt'', False), (str ''.hidden'', True)]
        else if p = [str ''z''] then Some [(str ''inner'', True)]
        else if p = [str ''a''] then Some [(str ''d'', True)]
        else if p = [str ''a'', str ''d''] then Some []
        else None)\<rparr>"

definition exFsCase :: FileSystem where
  "exFsCase =
     \<lparr>hasGitMetadata = (\<lambda>p. p = [str ''B''] \<or> p = [str ''a'']),
      readdir = (\<lambda>p. if p = [] then Some [(str ''B'', True), (str ''a'', True)] else None)\<rparr>"


section \<open>Properties of the discovery\<close>

text \<open>What holds of the variables of the scan at every turn of its loop.\<close>

definition queueItemOk :: "FileSystem \<Rightarrow> QueueItem \<Rightarrow> bool" where
  "queueItemOk fs q \<longleftrightarrow>
     depth q = length (itemPath q) \<and> depth q \<le> MAX_DISCOVERY_DEPTH \<and>
     (\<forall>r. strict_prefix r (itemPath q) \<and> r \<noteq> [] \<longrightarrow> \<not> hasGitMetadata fs r)"

definition repoOk :: "FileSystem \<Rightarrow> DiscoveredGitRepo \<Rightarrow> bool" where
  "repoOk fs d \<longleftrightarrow>
     absolutePath d \<noteq> [] \<and> hasGitMetadata fs (absolutePath d) \<and>
     relativePath d = joinWith (str ''/'') (absolutePath d) \<and>
     relativePath d \<noteq> [] \<and> \<not> startsWith (relativePath d) (str ''..'')"

definition scanInv :: "FileSystem \<Rightarrow> ScanState \<Rightarrow> bool" where
  "scanInv fs st \<longleftrightarrow>
     (\<forall>q \<in> set (queue st). queueItemOk fs q) \<and>
     (\<forall>d \<in> set (discovered st). repoOk fs d) \<and>
     length (discovered st) \<le> MAX_DISCOVERY_REPOS \<and>
     scannedDirectories st \<le> MAX_DISCOVERY_DIRECTORIES \<and>
     scanIndex st = scannedDirectories st \<and>
     scanIndex st \<le> length (queue st)"

lemma scanInit_inv: "scanInv fs scanInit"
  by (simp add: scanInv_def scanInit_def queueItemOk_def MAX_DISCOVERY_REPOS_def
      MAX_DISCOVERY_DIRECTORIES_def)

lemma childItems_ok:
  assumes "queueItemOk fs current" "depth current < MAX_DISCOVERY_DEPTH"
    and "\<not> (0 < depth current \<and> hasGitMetadata fs (itemPath current))"
    and "q \<in> set (childItems current entries)"
  shows "queueItemOk fs q"
proof -
  from assms(4) obtain n where q: "q = \<lparr>itemPath = itemPath current @ [n], depth = depth current + 1\<rparr>"
    by (auto simp: childItems_def)
  have d: "depth current = length (itemPath current)"
    using assms(1) by (simp add: queueItemOk_def)
  have "\<not> hasGitMetadata fs r" if r: "strict_prefix r (itemPath current @ [n])" "r \<noteq> []" for r
  proof -
    from r(1) have "prefix r (itemPath current)" by (auto simp: strict_prefix_def prefix_snoc)
    then consider "r = itemPath current" | "strict_prefix r (itemPath current)"
      by (auto simp: strict_prefix_def)
    then show ?thesis
    proof cases
      case 1
      then have "0 < depth current" using r(2) d by simp
      then show ?thesis using assms(3) 1 by simp
    next
      case 2
      then show ?thesis using assms(1) r(2) by (simp add: queueItemOk_def)
    qed
  qed
  then show ?thesis
    using assms(2) d by (simp add: queueItemOk_def q)
qed

lemma scanStep_inv:
  assumes inv: "scanInv fs st"
    and i: "scanIndex st < length (queue st)"
    and r: "length (discovered st) < MAX_DISCOVERY_REPOS"
    and s: "scannedDirectories st < MAX_DISCOVERY_DIRECTORIES"
  shows "scanInv fs (scanStep fs st)"
proof -
  define current where "current = queue st ! scanIndex st"
  have cq: "current \<in> set (queue st)" using i by (simp add: current_def)
  then have ok: "queueItemOk fs current" using inv by (simp add: scanInv_def)
  then have d: "depth current = length (itemPath current)" by (simp add: queueItemOk_def)
  define st1 where
    "st1 = st\<lparr>scannedDirectories := scannedDirectories st + 1, scanIndex := scanIndex st + 1\<rparr>"
  have inv1: "scanInv fs st1"
    using inv i s by (simp add: scanInv_def st1_def)
  show ?thesis
  proof (cases "0 < depth current \<and> hasGitMetadata fs (itemPath current)")
    case True
    define relPath where "relPath = joinWith (str ''/'') (itemPath current)"
    show ?thesis
    proof (cases "relPath \<noteq> [] \<and> \<not> startsWith relPath (str ''..'')")
      case ok: True
      have e: "scanStep fs st = st1\<lparr>discovered := discovered st1 @
          [\<lparr>absolutePath = itemPath current, relativePath = relPath\<rparr>]\<rparr>"
        using True ok
        by (simp add: scanStep_def Let_def current_def [symmetric] st1_def relPath_def)
      have "repoOk fs \<lparr>absolutePath = itemPath current, relativePath = relPath\<rparr>"
        using True ok d by (auto simp: repoOk_def relPath_def)
      then show ?thesis
        unfolding e using inv1 r by (auto simp: scanInv_def st1_def)
    next
      case False
      have "scanStep fs st = st1"
        using True False
        by (simp add: scanStep_def Let_def current_def [symmetric] st1_def relPath_def)
      then show ?thesis using inv1 by simp
    qed
  next
    case ng: False
    then have c: "(0 < depth current \<and> hasGitMetadata fs (itemPath current)) = False"
      by simp
    show ?thesis
    proof (cases "MAX_DISCOVERY_DEPTH \<le> depth current")
      case True
      have "scanStep fs st = st1"
        using True by (simp add: scanStep_def Let_def current_def [symmetric] st1_def c)
      then show ?thesis using inv1 by simp
    next
      case False
      show ?thesis
      proof (cases "readdir fs (itemPath current)")
        case None
        have "scanStep fs st = st1"
          using False None
          by (simp add: scanStep_def Let_def current_def [symmetric] st1_def c)
        then show ?thesis using inv1 by simp
      next
        case (Some entries)
        have e: "scanStep fs st = st1\<lparr>queue := queue st1 @ childItems current entries\<rparr>"
          using False Some
          by (simp add: scanStep_def Let_def current_def [symmetric] st1_def c)
        have "\<forall>q \<in> set (childItems current entries). queueItemOk fs q"
          using childItems_ok [OF ok _ ng] False by auto
        then show ?thesis
          unfolding e using inv1 by (auto simp: scanInv_def st1_def)
      qed
    qed
  qed
qed

lemma scanLoop_inv: "scanInv fs st \<Longrightarrow> scanInv fs (scanLoop fs st)"
proof (induction fs st rule: scanLoop.induct)
  case (1 fs st)
  show ?case
  proof (cases "scanIndex st < length (queue st) \<and>
      \<not> MAX_DISCOVERY_REPOS \<le> length (discovered st) \<and>
      \<not> MAX_DISCOVERY_DIRECTORIES \<le> scannedDirectories st")
    case True
    then have "scanInv fs (scanStep fs st)"
      using scanStep_inv [OF "1.prems"] by simp
    then have "scanInv fs (scanLoop fs (scanStep fs st))"
      using "1.IH" True by simp
    then show ?thesis using True by (subst scanLoop.simps) simp
  next
    case False
    then have "scanLoop fs st = st" by (subst scanLoop.simps) auto
    then show ?thesis using "1.prems" by simp
  qed
qed

lemma scanStep_discovered: "prefix (discovered st) (discovered (scanStep fs st))"
  by (simp add: scanStep_def Let_def split: option.splits)

lemma scanLoop_discovered: "prefix (discovered st) (discovered (scanLoop fs st))"
proof (induction fs st rule: scanLoop.induct)
  case (1 fs st)
  show ?case
  proof (cases "scanIndex st < length (queue st) \<and>
      \<not> MAX_DISCOVERY_REPOS \<le> length (discovered st) \<and>
      \<not> MAX_DISCOVERY_DIRECTORIES \<le> scannedDirectories st")
    case True
    then have "prefix (discovered (scanStep fs st)) (discovered (scanLoop fs (scanStep fs st)))"
      using "1.IH" by simp
    then have "prefix (discovered st) (discovered (scanLoop fs (scanStep fs st)))"
      using scanStep_discovered [of st fs] prefix_order.trans by blast
    then show ?thesis using True by (subst scanLoop.simps) simp
  next
    case False
    then have "scanLoop fs st = st" by (subst scanLoop.simps) auto
    then show ?thesis by simp
  qed
qed

lemma scanLoop_stop:
  "MAX_DISCOVERY_REPOS \<le> length (discovered st) \<or>
   MAX_DISCOVERY_DIRECTORIES \<le> scannedDirectories st \<or>
   length (queue st) \<le> scanIndex st \<Longrightarrow> scanLoop fs st = st"
  by (subst scanLoop.simps) auto

lemma set_insertBy: "set (insertBy c x xs) = insert x (set xs)"
  by (induction xs) auto

lemma length_insertBy: "length (insertBy c x xs) = Suc (length xs)"
  by (induction xs) auto

lemma set_sortBy: "set (sortBy c xs) = set xs"
  by (induction xs) (simp_all add: sortBy_def set_insertBy)

lemma length_sortBy: "length (sortBy c xs) = length xs"
  by (induction xs) (simp_all add: sortBy_def length_insertBy)

lemma ordinalLe_refl: "ordinalLe a a"
  by (induction a) auto

lemma ordinalLe_total: "ordinalLe a b \<or> ordinalLe b a"
  by (induction a b rule: ordinalLe.induct) auto

lemma ordinalLe_trans: "ordinalLe a b \<Longrightarrow> ordinalLe b c \<Longrightarrow> ordinalLe a c"
proof (induction a b arbitrary: c rule: ordinalLe.induct)
  case (1 ys)
  then show ?case by simp
next
  case (2 x xs)
  then show ?case by simp
next
  case (3 x xs y ys)
  then show ?case by (cases c) auto
qed

lemma ordinalCompare_le: "ordinalCompare a b \<le> 0 \<longleftrightarrow> ordinalLe a b"
  by (simp add: ordinalCompare_def ordinalLe_refl)

lemma consistent_by_key: "consistentComparator (\<lambda>a b. ordinalCompare (f a) (f b))"
  unfolding consistentComparator_def ordinalCompare_le
  using ordinalLe_total ordinalLe_trans by blast

lemma consistent_ordinal: "consistentComparator ordinalCompare"
  using consistent_by_key [of "\<lambda>x. x"] by simp

lemma consistent_letterCollate: "consistentComparator letterCollate"
  using consistent_by_key [of collationKey] by (simp add: letterCollate_def [abs_def])

lemma sorted_insertBy:
  assumes tot: "\<And>a b. c a b \<le> 0 \<or> c b a \<le> 0"
    and tr: "\<And>a b d. c a b \<le> 0 \<Longrightarrow> c b d \<le> 0 \<Longrightarrow> c a d \<le> 0"
  shows "sorted_wrt (\<lambda>a b. c a b \<le> 0) xs \<Longrightarrow> sorted_wrt (\<lambda>a b. c a b \<le> 0) (insertBy c x xs)"
proof (induction xs)
  case Nil
  then show ?case by simp
next
  case (Cons y ys)
  show ?case
  proof (cases "c x y \<le> 0")
    case True
    then show ?thesis using Cons.prems tr by auto
  next
    case False
    then have "c y x \<le> 0" using tot by blast
    then show ?thesis using Cons False by (auto simp: set_insertBy)
  qed
qed

lemma sorted_sortBy:
  assumes tot: "\<And>a b. c a b \<le> 0 \<or> c b a \<le> 0"
    and tr: "\<And>a b d. c a b \<le> 0 \<Longrightarrow> c b d \<le> 0 \<Longrightarrow> c a d \<le> 0"
  shows "sorted_wrt (\<lambda>a b. c a b \<le> 0) (sortBy c xs)"
proof (induction xs)
  case Nil
  then show ?case by (simp add: sortBy_def)
next
  case (Cons x xs)
  then show ?case
    using sorted_insertBy [OF tot tr, where xs = "sortBy c xs" and x = x]
    by (simp add: sortBy_def)
qed


lemmas discovery_defs = scanStep_def Let_def childItems_def shouldSkipDirectory_def
  SKIPPED_DIRECTORY_NAMES_def MAX_DISCOVERY_DEPTH_def

lemma scanLoop_step:
  "scanIndex st < length (queue st) \<Longrightarrow> length (discovered st) < 64 \<Longrightarrow>
   scannedDirectories st < 2000 \<Longrightarrow> scanLoop fs st = scanLoop fs (scanStep fs st)"
  by (subst scanLoop.simps)
    (simp add: MAX_DISCOVERY_REPOS_def MAX_DISCOVERY_DIRECTORIES_def)

lemma scanLoop_done: "length (queue st) \<le> scanIndex st \<Longrightarrow> scanLoop fs st = st"
  by (subst scanLoop.simps) simp

lemma exFs_scan:
  "scanLoop exFs scanInit =
     \<lparr>queue = [\<lparr>itemPath = [], depth = 0\<rparr>, \<lparr>itemPath = [str ''z''], depth = 1\<rparr>,
               \<lparr>itemPath = [str ''a''], depth = 1\<rparr>,
               \<lparr>itemPath = [str ''a'', str ''d''], depth = 2\<rparr>],
      scanIndex = 4,
      discovered = [\<lparr>absolutePath = [str ''z''], relativePath = str ''z''\<rparr>,
                    \<lparr>absolutePath = [str ''a'', str ''d''], relativePath = str ''a/d''\<rparr>],
      scannedDirectories = 4\<rparr>"
proof -
  define q0 where "q0 = \<lparr>itemPath = [] :: path, depth = 0\<rparr>"
  define q1 where "q1 = \<lparr>itemPath = [str ''z''], depth = 1\<rparr>"
  define q2 where "q2 = \<lparr>itemPath = [str ''a''], depth = 1\<rparr>"
  define q3 where "q3 = \<lparr>itemPath = [str ''a'', str ''d''], depth = 2\<rparr>"
  define d1 where "d1 = \<lparr>absolutePath = [str ''z''], relativePath = str ''z''\<rparr>"
  define d2 where "d2 = \<lparr>absolutePath = [str ''a'', str ''d''], relativePath = str ''a/d''\<rparr>"
  have s1: "scanStep exFs scanInit =
      \<lparr>queue = [q0, q1, q2], scanIndex = 1, discovered = [], scannedDirectories = 1\<rparr>"
    by (simp add: discovery_defs scanInit_def exFs_def q0_def q1_def q2_def str_def startsWith_def)
  have s2: "scanStep exFs
      \<lparr>queue = [q0, q1, q2], scanIndex = 1, discovered = [], scannedDirectories = 1\<rparr> =
      \<lparr>queue = [q0, q1, q2], scanIndex = 2, discovered = [d1], scannedDirectories = 2\<rparr>"
    by (simp add: discovery_defs exFs_def q1_def d1_def str_def startsWith_def)
  have s3: "scanStep exFs
      \<lparr>queue = [q0, q1, q2], scanIndex = 2, discovered = [d1], scannedDirectories = 2\<rparr> =
      \<lparr>queue = [q0, q1, q2, q3], scanIndex = 3, discovered = [d1], scannedDirectories = 3\<rparr>"
    by (simp add: discovery_defs exFs_def q2_def q3_def str_def startsWith_def)
  have s4: "scanStep exFs
      \<lparr>queue = [q0, q1, q2, q3], scanIndex = 3, discovered = [d1], scannedDirectories = 3\<rparr> =
      \<lparr>queue = [q0, q1, q2, q3], scanIndex = 4, discovered = [d1, d2], scannedDirectories = 4\<rparr>"
    by (simp add: discovery_defs exFs_def q3_def d2_def str_def startsWith_def)
  define t1 where
    "t1 = \<lparr>queue = [q0, q1, q2], scanIndex = 1, discovered = [], scannedDirectories = 1\<rparr>"
  define t2 where
    "t2 = \<lparr>queue = [q0, q1, q2], scanIndex = 2, discovered = [d1], scannedDirectories = 2\<rparr>"
  define t3 where
    "t3 = \<lparr>queue = [q0, q1, q2, q3], scanIndex = 3, discovered = [d1], scannedDirectories = 3\<rparr>"
  define t4 where
    "t4 = \<lparr>queue = [q0, q1, q2, q3], scanIndex = 4, discovered = [d1, d2],
      scannedDirectories = 4\<rparr>"
  have "scanLoop exFs scanInit = scanLoop exFs (scanStep exFs scanInit)"
    by (rule scanLoop_step) (simp_all add: scanInit_def)
  also have "\<dots> = scanLoop exFs t1" by (simp only: s1 t1_def)
  also have "\<dots> = scanLoop exFs (scanStep exFs t1)"
    by (rule scanLoop_step) (simp_all add: t1_def)
  also have "\<dots> = scanLoop exFs t2" by (simp only: s2 t1_def t2_def)
  also have "\<dots> = scanLoop exFs (scanStep exFs t2)"
    by (rule scanLoop_step) (simp_all add: t2_def)
  also have "\<dots> = scanLoop exFs t3" by (simp only: s3 t2_def t3_def)
  also have "\<dots> = scanLoop exFs (scanStep exFs t3)"
    by (rule scanLoop_step) (simp_all add: t3_def)
  also have "\<dots> = scanLoop exFs t4" by (simp only: s4 t3_def t4_def)
  also have "\<dots> = t4" by (rule scanLoop_done) (simp add: t4_def)
  finally have "scanLoop exFs scanInit =
      \<lparr>queue = [q0, q1, q2, q3], scanIndex = 4, discovered = [d1, d2], scannedDirectories = 4\<rparr>"
    by (simp add: t4_def)
  then show ?thesis
    by (simp add: q0_def q1_def q2_def q3_def d1_def d2_def)
qed


lemma exFsCase_scan:
  "discovered (scanLoop exFsCase scanInit) =
     [\<lparr>absolutePath = [str ''B''], relativePath = str ''B''\<rparr>,
      \<lparr>absolutePath = [str ''a''], relativePath = str ''a''\<rparr>]"
proof -
  define q0 where "q0 = \<lparr>itemPath = [] :: path, depth = 0\<rparr>"
  define q1 where "q1 = \<lparr>itemPath = [str ''B''], depth = 1\<rparr>"
  define q2 where "q2 = \<lparr>itemPath = [str ''a''], depth = 1\<rparr>"
  define d1 where "d1 = \<lparr>absolutePath = [str ''B''], relativePath = str ''B''\<rparr>"
  define d2 where "d2 = \<lparr>absolutePath = [str ''a''], relativePath = str ''a''\<rparr>"
  define t1 where
    "t1 = \<lparr>queue = [q0, q1, q2], scanIndex = 1, discovered = [], scannedDirectories = 1\<rparr>"
  define t2 where
    "t2 = \<lparr>queue = [q0, q1, q2], scanIndex = 2, discovered = [d1], scannedDirectories = 2\<rparr>"
  define t3 where
    "t3 = \<lparr>queue = [q0, q1, q2], scanIndex = 3, discovered = [d1, d2], scannedDirectories = 3\<rparr>"
  have s1: "scanStep exFsCase scanInit = t1"
    by (simp add: discovery_defs scanInit_def exFsCase_def q0_def q1_def q2_def t1_def str_def
        startsWith_def)
  have s2: "scanStep exFsCase t1 = t2"
    by (simp add: discovery_defs exFsCase_def q1_def d1_def t1_def t2_def str_def startsWith_def)
  have s3: "scanStep exFsCase t2 = t3"
    by (simp add: discovery_defs exFsCase_def q2_def d2_def t2_def t3_def str_def startsWith_def)
  have "scanLoop exFsCase scanInit = scanLoop exFsCase (scanStep exFsCase scanInit)"
    by (rule scanLoop_step) (simp_all add: scanInit_def)
  also have "\<dots> = scanLoop exFsCase (scanStep exFsCase t1)"
    unfolding s1 by (rule scanLoop_step) (simp_all add: t1_def)
  also have "\<dots> = scanLoop exFsCase (scanStep exFsCase t2)"
    unfolding s2 by (rule scanLoop_step) (simp_all add: t2_def)
  also have "\<dots> = t3"
    unfolding s3 by (rule scanLoop_done) (simp add: t3_def)
  finally show ?thesis by (simp add: t3_def d1_def d2_def)
qed

lemmas collation_defs = ordinalCompare_def letterCollate_def collationKey_def isUpperASCII_def


text \<open>
  C3. For every file system, with \<open>F\<close> the variables of the scan when its loop ends:
  no directory that was ever put on the queue lies below a directory that is
  returned as a repository; every repository returned is below the scan root, and
  its relative path is not empty and does not start with \<open>..\<close>; every directory on the
  queue is at depth at most 4; at most 2000 directories are scanned; at most 64
  repositories are returned, the ones found by the scan. When one of the two bounds
  of the loop holds of its variables the loop returns them unchanged, and the loop
  never drops a repository that it has found.
\<close>

theorem discovery_bounds:
  "(\<forall>d \<in> set (discoverNestedGitRepos localeCompare fs).
      \<forall>q \<in> set (queue (scanLoop fs scanInit)).
        \<not> strict_prefix (absolutePath d) (itemPath q)) \<and>
   (\<forall>d \<in> set (discoverNestedGitRepos localeCompare fs).
      absolutePath d \<noteq> [] \<and> relativePath d \<noteq> [] \<and>
      \<not> startsWith (relativePath d) (str ''..'')) \<and>
   (\<forall>q \<in> set (queue (scanLoop fs scanInit)). depth q = length (itemPath q) \<and> depth q \<le> 4) \<and>
   scannedDirectories (scanLoop fs scanInit) \<le> 2000 \<and>
   scanIndex (scanLoop fs scanInit) = scannedDirectories (scanLoop fs scanInit) \<and>
   length (discoverNestedGitRepos localeCompare fs) \<le> 64 \<and>
   set (discoverNestedGitRepos localeCompare fs) = set (discovered (scanLoop fs scanInit)) \<and>
   (64 \<le> length (discovered st) \<or> 2000 \<le> scannedDirectories st \<longrightarrow> scanLoop fs st = st) \<and>
   prefix (discovered st) (discovered (scanLoop fs st))"
proof -
  let ?F = "scanLoop fs scanInit"
  let ?R = "discoverNestedGitRepos localeCompare fs"
  have inv: "scanInv fs ?F" using scanInit_inv by (rule scanLoop_inv)
  have R: "set ?R = set (discovered ?F)" "length ?R = length (discovered ?F)"
    by (simp_all add: discoverNestedGitRepos_def set_sortBy length_sortBy)
  have q: "\<forall>q \<in> set (queue ?F). queueItemOk fs q" and d: "\<forall>d \<in> set (discovered ?F). repoOk fs d"
    and n: "length (discovered ?F) \<le> 64" and s: "scannedDirectories ?F \<le> 2000"
    and i: "scanIndex ?F = scannedDirectories ?F"
    using inv by (simp_all add: scanInv_def MAX_DISCOVERY_REPOS_def MAX_DISCOVERY_DIRECTORIES_def)
  have 1: "\<forall>d \<in> set ?R. \<forall>q \<in> set (queue ?F). \<not> strict_prefix (absolutePath d) (itemPath q)"
    using q d unfolding R(1) queueItemOk_def repoOk_def by blast
  have 2: "\<forall>d \<in> set ?R. absolutePath d \<noteq> [] \<and> relativePath d \<noteq> [] \<and>
      \<not> startsWith (relativePath d) (str ''..'')"
    using d unfolding R(1) repoOk_def by blast
  have 3: "\<forall>q \<in> set (queue ?F). depth q = length (itemPath q) \<and> depth q \<le> 4"
    using q by (auto simp: queueItemOk_def MAX_DISCOVERY_DEPTH_def)
  have 4: "64 \<le> length (discovered st) \<or> 2000 \<le> scannedDirectories st \<longrightarrow> scanLoop fs st = st"
    using scanLoop_stop [of st fs]
    by (auto simp: MAX_DISCOVERY_REPOS_def MAX_DISCOVERY_DIRECTORIES_def)
  have 5: "prefix (discovered st) (discovered (scanLoop fs st))"
    by (rule scanLoop_discovered)
  have 6: "length ?R \<le> 64" using n R(2) by simp
  show ?thesis
    by (intro conjI 1 2 3 s i 6 R(1) 4 5)
qed

theorem discovery_bounds_witness:
  "discoverNestedGitRepos ordinalCompare exFs =
     [\<lparr>absolutePath = [str ''a'', str ''d''], relativePath = str ''a/d''\<rparr>,
      \<lparr>absolutePath = [str ''z''], relativePath = str ''z''\<rparr>] \<and>
   map itemPath (queue (scanLoop exFs scanInit)) =
     [[], [str ''z''], [str ''a''], [str ''a'', str ''d'']] \<and>
   \<lparr>itemPath = [str ''z'', str ''inner''], depth = 2\<rparr> \<notin> set (queue (scanLoop exFs scanInit)) \<and>
   scannedDirectories (scanLoop exFs scanInit) = 4"
proof -
  note t = discovery_bounds [of ordinalCompare exFs scanInit]
  have r: "discoverNestedGitRepos ordinalCompare exFs =
     [\<lparr>absolutePath = [str ''a'', str ''d''], relativePath = str ''a/d''\<rparr>,
      \<lparr>absolutePath = [str ''z''], relativePath = str ''z''\<rparr>]"
    by (simp add: discoverNestedGitRepos_def exFs_scan sortBy_def ordinalCompare_def str_def)
  have z: "\<lparr>absolutePath = [str ''z''], relativePath = str ''z''\<rparr> \<in>
      set (discoverNestedGitRepos ordinalCompare exFs)"
    unfolding r by simp
  have "\<forall>q \<in> set (queue (scanLoop exFs scanInit)). \<not> strict_prefix [str ''z''] (itemPath q)"
    using t z by fastforce
  then have n: "\<lparr>itemPath = [str ''z'', str ''inner''], depth = 2\<rparr> \<notin>
      set (queue (scanLoop exFs scanInit))"
    by (auto simp: strict_prefix_def)
  show ?thesis
    using r n by (simp add: exFs_scan)
qed


text \<open>
  C5 (as amended). When \<open>localeCompare\<close> is a consistent comparator, the repositories
  returned are sorted in ascending order of their relative paths under
  \<open>localeCompare\<close>, the collation of the host, and they are the repositories found by
  the scan. (Under a collation that puts \<open>a\<close> before \<open>B\<close> the result is not in the
  order of the code units.)
\<close>

theorem discovery_sorted_by_localeCompare:
  assumes "consistentComparator localeCompare"
  shows "sorted_wrt (\<lambda>a b. localeCompare (relativePath a) (relativePath b) \<le> 0)
           (discoverNestedGitRepos localeCompare fs) \<and>
         set (discoverNestedGitRepos localeCompare fs) = set (discovered (scanLoop fs scanInit)) \<and>
         length (discoverNestedGitRepos localeCompare fs) =
           length (discovered (scanLoop fs scanInit))"
proof -
  have tot: "\<And>a b. localeCompare a b \<le> 0 \<or> localeCompare b a \<le> 0"
    and tr: "\<And>a b d. localeCompare a b \<le> 0 \<Longrightarrow> localeCompare b d \<le> 0 \<Longrightarrow> localeCompare a d \<le> 0"
    using assms unfolding consistentComparator_def by blast+
  have "sorted_wrt (\<lambda>a b. localeCompare (relativePath a) (relativePath b) \<le> 0)
      (sortBy (\<lambda>a b. localeCompare (relativePath a) (relativePath b))
         (discovered (scanLoop fs scanInit)))"
    by (rule sorted_sortBy) (use tot tr in blast)+
  then show ?thesis
    by (simp add: discoverNestedGitRepos_def set_sortBy length_sortBy)
qed



theorem discovery_sorted_by_localeCompare_witness:
  "map relativePath (discoverNestedGitRepos ordinalCompare exFs) = [str ''a/d'', str ''z''] \<and>
   ordinalLe (str ''a/d'') (str ''z'')"
proof -
  note t = discovery_sorted_by_localeCompare [OF consistent_ordinal, of exFs]
  have r: "discoverNestedGitRepos ordinalCompare exFs =
     [\<lparr>absolutePath = [str ''a'', str ''d''], relativePath = str ''a/d''\<rparr>,
      \<lparr>absolutePath = [str ''z''], relativePath = str ''z''\<rparr>]"
    by (simp add: discoverNestedGitRepos_def exFs_scan sortBy_def ordinalCompare_def str_def)
  have "ordinalCompare (str ''a/d'') (str ''z'') \<le> 0"
    using t unfolding r by simp
  then have "ordinalLe (str ''a/d'') (str ''z'')"
    by (simp add: ordinalCompare_le)
  then show ?thesis by (simp add: r)
qed


theorem discovery_order_counterexample:
  "map relativePath (discoverNestedGitRepos letterCollate exFsCase) = [str ''a'', str ''B''] \<and>
   \<not> ordinalLe (str ''a'') (str ''B'') \<and>
   consistentComparator letterCollate"
proof -
  have r: "map relativePath (discoverNestedGitRepos letterCollate exFsCase) =
      [str ''a'', str ''B'']"
    by (simp add: discoverNestedGitRepos_def exFsCase_scan sortBy_def collation_defs str_def)
  have n: "\<not> ordinalLe (str ''a'') (str ''B'')"
    by (simp add: str_def)
  show ?thesis using r n consistent_letterCollate by simp
qed


section \<open>Fan-out over the nested repositories\<close>

record GitCommandResponse =
  success :: bool
  stdout :: "jsstring option"
  stderr :: "jsstring option"
  exitCode :: "int option"
  error :: "jsstring option"

text \<open>
  Modelled from the spec: \<open>rpcError\<close> of the module \<open>rpcResponses\<close>, which is not among
  the sources. A failure is returned as data, a response with \<open>success = false\<close> that
  carries the error message, and the fields of the second argument (here only
  \<open>stderr\<close> is ever given by the fan-out).
\<close>

definition rpcError :: "jsstring \<Rightarrow> jsstring option \<Rightarrow> GitCommandResponse" where
  "rpcError message extraStderr =
     \<lparr>success = False, stdout = None, stderr = extraStderr, exitCode = None,
      error = Some message\<rparr>"

text \<open>
  \<open>runGitCommand(args, cwd, timeout)\<close> starts a process and never throws. It is a
  parameter of the model: a function of the arguments, the directory, the timeout and
  the state \<open>'w\<close> of the world outside, which returns the response and the new state.
\<close>

type_synonym 'w runner =
  "jsstring list \<Rightarrow> path \<Rightarrow> nat option \<Rightarrow> 'w \<Rightarrow> GitCommandResponse \<times> 'w"

definition GIT_STATUS_ARGS :: "jsstring list" where
  "GIT_STATUS_ARGS =
     map str [''status'', ''--porcelain=v2'', ''--branch'', ''--untracked-files=all'']"

text \<open>The variables that the loop over the repositories changes.\<close>

record FanOutState =
  outputs :: "jsstring list"
  errors :: "jsstring list"
  hasSuccess :: bool

text \<open>\<open>`[${repo.relativePath}] ${result.error ?? result.stderr ?? fallback}`\<close>.\<close>

definition errorLine :: "jsstring \<Rightarrow> DiscoveredGitRepo \<Rightarrow> GitCommandResponse \<Rightarrow> jsstring" where
  "errorLine fallback r result =
     str ''['' @ relativePath r @ str ''] '' @
     (case error result of
        Some e \<Rightarrow> e
      | None \<Rightarrow> (case stderr result of Some s \<Rightarrow> s | None \<Rightarrow> fallback))"

text \<open>
  One turn of the loop. \<open>None\<close> is the exception that \<open>wrapRepoSectionOutput\<close> throws
  when the name cannot be encoded; it ends the loop and the call.
\<close>

definition fanOutStep ::
  "'w runner \<Rightarrow> jsstring list \<Rightarrow> jsstring \<Rightarrow> nat option \<Rightarrow> (FanOutState \<times> 'w) option \<Rightarrow>
   DiscoveredGitRepo \<Rightarrow> (FanOutState \<times> 'w) option" where
  "fanOutStep run args fallback timeout acc r =
     (case acc of
        None \<Rightarrow> None
      | Some (st, w) \<Rightarrow>
          (case run args (absolutePath r) timeout w of
             (result, w1) \<Rightarrow>
               if \<not> success result
               then Some (st\<lparr>errors := errors st @ [errorLine fallback r result]\<rparr>, w1)
               else
                 (case wrapRepoSectionOutput (relativePath r)
                         (case stdout result of None \<Rightarrow> [] | Some s \<Rightarrow> s) of
                    None \<Rightarrow> None
                  | Some wrapped \<Rightarrow>
                      Some (st\<lparr>hasSuccess := True, outputs := outputs st @ [wrapped]\<rparr>, w1))))"

text \<open>
  The body that \<open>runNestedStatusFallback\<close> and \<open>runNestedNumstatFallback\<close> share; they
  differ in the arguments of the command and in two messages. \<open>repoList\<close> is the list \<open>repos\<close>
  that \<open>getNestedRepos\<close> returned.
\<close>

definition nestedFanOut ::
  "'w runner \<Rightarrow> jsstring list \<Rightarrow> jsstring \<Rightarrow> jsstring \<Rightarrow> DiscoveredGitRepo list \<Rightarrow>
   nat option \<Rightarrow> 'w \<Rightarrow> (GitCommandResponse \<times> 'w) option" where
  "nestedFanOut run args fallback unavailable repoList timeout w =
     (if repoList = [] then
        Some (rpcError
          (str ''Not a git repository and no nested git repositories were found'') None, w)
      else
        (case foldl (fanOutStep run args fallback timeout)
                (Some (\<lparr>outputs = [], errors = [], hasSuccess = False\<rparr>, w)) repoList of
           None \<Rightarrow> None
         | Some (st, w') \<Rightarrow>
             if \<not> hasSuccess st then
               Some (rpcError (case errors st of [] \<Rightarrow> unavailable | e # es \<Rightarrow> e)
                       (Some (joinWith NL (errors st))), w')
             else
               Some (\<lparr>success = True, stdout = Some (joinWith NL (outputs st)),
                      stderr = Some (joinWith NL (errors st)), exitCode = Some 0,
                      error = None\<rparr>, w')))"

definition runNestedStatusFallback ::
  "'w runner \<Rightarrow> DiscoveredGitRepo list \<Rightarrow> nat option \<Rightarrow> 'w \<Rightarrow>
   (GitCommandResponse \<times> 'w) option" where
  "runNestedStatusFallback run repoList timeout w =
     nestedFanOut run GIT_STATUS_ARGS (str ''status failed'')
       (str ''Nested git status unavailable'') repoList timeout w"

definition runNestedNumstatFallback ::
  "'w runner \<Rightarrow> DiscoveredGitRepo list \<Rightarrow> bool \<Rightarrow> nat option \<Rightarrow> 'w \<Rightarrow>
   (GitCommandResponse \<times> 'w) option" where
  "runNestedNumstatFallback run repoList staged timeout w =
     nestedFanOut run
       (if staged then map str [''diff'', ''--cached'', ''--numstat'']
        else map str [''diff'', ''--numstat''])
       (str ''diff failed'') (str ''Nested git diff unavailable'') repoList timeout w"

text \<open>
  The words of the specification: the command is run in every repository, one after
  the other in the order of the list; the results that succeeded are wrapped; the
  results that failed give the error lines.
\<close>

fun runAll ::
  "'w runner \<Rightarrow> jsstring list \<Rightarrow> nat option \<Rightarrow> DiscoveredGitRepo list \<Rightarrow> 'w \<Rightarrow>
   GitCommandResponse list \<times> 'w" where
  "runAll run args timeout [] w = ([], w)"
| "runAll run args timeout (r # rs) w =
     (case run args (absolutePath r) timeout w of
        (result, w1) \<Rightarrow>
          (case runAll run args timeout rs w1 of (results, w2) \<Rightarrow> (result # results, w2)))"

definition wrappedOf :: "DiscoveredGitRepo \<Rightarrow> GitCommandResponse \<Rightarrow> jsstring" where
  "wrappedOf r result =
     (case wrapRepoSectionOutput (relativePath r)
             (case stdout result of None \<Rightarrow> [] | Some s \<Rightarrow> s) of
        None \<Rightarrow> []
      | Some wrapped \<Rightarrow> wrapped)"

definition wrappedOutputs :: "(DiscoveredGitRepo \<times> GitCommandResponse) list \<Rightarrow> jsstring list" where
  "wrappedOutputs rs = map (\<lambda>(r, result). wrappedOf r result) (filter (\<lambda>(r, result). success result) rs)"

definition errorLines ::
  "jsstring \<Rightarrow> (DiscoveredGitRepo \<times> GitCommandResponse) list \<Rightarrow> jsstring list" where
  "errorLines fallback rs =
     map (\<lambda>(r, result). errorLine fallback r result) (filter (\<lambda>(r, result). \<not> success result) rs)"

text \<open>The reading of the specification in which only the results that are not empty
  are wrapped.\<close>

definition wrappedNonEmptyOutputs ::
  "(DiscoveredGitRepo \<times> GitCommandResponse) list \<Rightarrow> jsstring list" where
  "wrappedNonEmptyOutputs rs =
     map (\<lambda>(r, result). wrappedOf r result)
       (filter (\<lambda>(r, result). success result \<and> stdout result \<noteq> None \<and> stdout result \<noteq> Some []) rs)"

text \<open>The response that the specification describes for a list of results.\<close>

definition fanOutResponse ::
  "jsstring \<Rightarrow> DiscoveredGitRepo list \<Rightarrow> GitCommandResponse list \<Rightarrow> GitCommandResponse" where
  "fanOutResponse fallback repoList results =
     (if list_ex success results then
        \<lparr>success = True,
         stdout = Some (joinWith NL (wrappedOutputs (zip repoList results))),
         stderr = Some (joinWith NL (errorLines fallback (zip repoList results))),
         exitCode = Some 0, error = None\<rparr>
      else
        \<lparr>success = False, stdout = None,
         stderr = Some (joinWith NL (errorLines fallback (zip repoList results))),
         exitCode = None,
         error = Some (errorLine fallback (hd repoList) (hd results))\<rparr>)"


text \<open>A runner for the examples: the world is the list of the directories in which a
  command was run. The command succeeds in \<open>a\<close>, succeeds with no output in \<open>e\<close>, and
  fails elsewhere.\<close>

definition exRunner :: "(path list) runner" where
  "exRunner args cwd timeout w =
     (if cwd = [str ''a''] then
        \<lparr>success = True, stdout = Some (str ''? x.ts'' @ NL), stderr = Some [],
         exitCode = Some 0, error = None\<rparr>
      else if cwd = [str ''e''] then
        \<lparr>success = True, stdout = Some [], stderr = Some [], exitCode = Some 0, error = None\<rparr>
      else
        \<lparr>success = False, stdout = Some [], stderr = Some (str ''fatal: bad''),
         exitCode = Some 128, error = Some (str ''Command failed'')\<rparr>,
      w @ [cwd])"

definition exRepo :: "string \<Rightarrow> DiscoveredGitRepo" where
  "exRepo n = \<lparr>absolutePath = [str n], relativePath = str n\<rparr>"

lemmas fanout_defs = fanOutResponse_def wrappedOutputs_def errorLines_def errorLine_def
  wrappedOf_def wrappedNonEmptyOutputs_def wrapRepoSectionOutput_def exRunner_def exRepo_def
  HAPI_REPO_SECTION_PREFIX_def HAPI_REPO_SECTION_END_def


section \<open>Properties of the fan-out\<close>

lemma wrap_defined:
  "wellFormedUTF16 n \<Longrightarrow> \<exists>wrapped. wrapRepoSectionOutput n out = Some wrapped"
proof -
  assume "wellFormedUTF16 n"
  then obtain e where "encodeURIComponent n = Some e"
    by (rule encode_decode_roundtrip)
  then show ?thesis by (simp add: wrapRepoSectionOutput_def Let_def)
qed

lemma length_runAll: "length (fst (runAll run args timeout rs w)) = length rs"
proof (induction rs arbitrary: w)
  case Nil
  then show ?case by simp
next
  case (Cons r rs)
  obtain result w1 where r1: "run args (absolutePath r) timeout w = (result, w1)"
    by (cases "run args (absolutePath r) timeout w") auto
  obtain results w2 where r2: "runAll run args timeout rs w1 = (results, w2)"
    by (cases "runAll run args timeout rs w1") auto
  show ?case using Cons [of w1] by (simp add: r1 r2)
qed

lemma foldl_fanOutStep:
  assumes "list_all (\<lambda>r. wellFormedUTF16 (relativePath r)) rs"
  shows "foldl (fanOutStep run args fb t) (Some (st, w)) rs =
     (case runAll run args t rs w of
        (results, w') \<Rightarrow>
          Some (\<lparr>outputs = outputs st @ wrappedOutputs (zip rs results),
                 errors = errors st @ errorLines fb (zip rs results),
                 hasSuccess = (hasSuccess st \<or> list_ex success results)\<rparr>, w'))"
  using assms
proof (induction rs arbitrary: st w)
  case Nil
  then show ?case by (simp add: wrappedOutputs_def errorLines_def)
next
  case (Cons r rs)
  obtain result w1 where r1: "run args (absolutePath r) t w = (result, w1)"
    by (cases "run args (absolutePath r) t w") auto
  obtain results w2 where r2: "runAll run args t rs w1 = (results, w2)"
    by (cases "runAll run args t rs w1") auto
  have wf: "wellFormedUTF16 (relativePath r)" and wfs: "list_all (\<lambda>r. wellFormedUTF16 (relativePath r)) rs"
    using Cons.prems by simp_all
  show ?case
  proof (cases "success result")
    case True
    obtain wrapped where wr: "wrapRepoSectionOutput (relativePath r)
        (case stdout result of None \<Rightarrow> [] | Some s \<Rightarrow> s) = Some wrapped"
      using wrap_defined [OF wf] by blast
    have step: "fanOutStep run args fb t (Some (st, w)) r =
        Some (st\<lparr>hasSuccess := True, outputs := outputs st @ [wrappedOf r result]\<rparr>, w1)"
      using True by (simp add: fanOutStep_def r1 wrappedOf_def wr)
    show ?thesis
      using True
      by (simp add: step Cons.IH [OF wfs] r1 r2 wrappedOutputs_def errorLines_def)
  next
    case False
    have step: "fanOutStep run args fb t (Some (st, w)) r =
        Some (st\<lparr>errors := errors st @ [errorLine fb r result]\<rparr>, w1)"
      using False by (simp add: fanOutStep_def r1)
    show ?thesis
      using False
      by (simp add: step Cons.IH [OF wfs] r1 r2 wrappedOutputs_def errorLines_def)
  qed
qed

lemma errorLines_all_failed:
  "\<not> list_ex success results \<Longrightarrow> length results = length rs \<Longrightarrow> rs \<noteq> [] \<Longrightarrow>
   errorLines fb (zip rs results) = errorLine fb (hd rs) (hd results) # tl (errorLines fb (zip rs results))"
  by (cases rs; cases results) (simp_all add: errorLines_def)

lemma nestedFanOut_response:
  assumes "repoList \<noteq> []" "list_all (\<lambda>r. wellFormedUTF16 (relativePath r)) repoList"
    and "runAll run args timeout repoList w = (results, w')"
  shows "nestedFanOut run args fallback unavailable repoList timeout w =
         Some (fanOutResponse fallback repoList results, w')"
proof -
  have l: "length results = length repoList"
    using length_runAll [of run args timeout repoList w] assms(3) by simp
  show ?thesis
  proof (cases "list_ex success results")
    case True
    then show ?thesis
      using assms(1) by (simp add: nestedFanOut_def foldl_fanOutStep [OF assms(2)] assms(3)
          fanOutResponse_def)
  next
    case False
    from errorLines_all_failed [OF False l assms(1), of fallback]
    obtain es where e: "errorLines fallback (zip repoList results) =
        errorLine fallback (hd repoList) (hd results) # es"
      by blast
    show ?thesis
      using assms(1) False
      by (simp add: nestedFanOut_def foldl_fanOutStep [OF assms(2)] assms(3) fanOutResponse_def
          rpcError_def e)
  qed
qed

text \<open>
  Outside the well-formed names the fan-out throws: a repository whose relative path
  holds a lone surrogate and whose command succeeds ends the call with the
  \<open>URIError\<close> of \<open>encodeURIComponent\<close>.
\<close>

lemma fanOut_lone_surrogate:
  "runNestedStatusFallback exRunner
     [\<lparr>absolutePath = [str ''a''], relativePath = [0xD800]\<rparr>] None [] = None"
  by (simp add: runNestedStatusFallback_def nestedFanOut_def fanOutStep_def exRunner_def
      wrapRepoSectionOutput_def isUnreserved_def isTrailSurrogate_def isLeadSurrogate_def)

text \<open>
  C2 (as amended). For every list of repositories that is not empty and whose
  relative paths are well-formed UTF-16 (no lone surrogate), and for every behaviour
  of the command, the status and the numstat
  fan-out run the command once in every repository, one after the other in the order
  of the list; every result that succeeded, empty or not, is wrapped, and the wrapped
  outputs are joined by newlines. If at least one command succeeded the call returns
  a success with these outputs as \<open>stdout\<close> and the error lines of the failed
  repositories, joined by newlines, as \<open>stderr\<close>; if every command failed it returns
  a failure with the first error line as error and all error lines joined as
  \<open>stderr\<close>.
\<close>

theorem nested_fallback_fanout:
  assumes "repoList \<noteq> []" "list_all (\<lambda>r. wellFormedUTF16 (relativePath r)) repoList"
  shows "runNestedStatusFallback run repoList timeout w =
           Some (fanOutResponse (str ''status failed'') repoList
                   (fst (runAll run GIT_STATUS_ARGS timeout repoList w)),
                 snd (runAll run GIT_STATUS_ARGS timeout repoList w)) \<and>
         runNestedNumstatFallback run repoList staged timeout w =
           Some (fanOutResponse (str ''diff failed'') repoList
                   (fst (runAll run
                      (if staged then map str [''diff'', ''--cached'', ''--numstat'']
                       else map str [''diff'', ''--numstat'']) timeout repoList w)),
                 snd (runAll run
                      (if staged then map str [''diff'', ''--cached'', ''--numstat'']
                       else map str [''diff'', ''--numstat'']) timeout repoList w)) \<and>
         length (fst (runAll run GIT_STATUS_ARGS timeout repoList w)) = length repoList"
  using nestedFanOut_response [OF assms, where run = run and timeout = timeout and w = w]
  by (simp add: runNestedStatusFallback_def runNestedNumstatFallback_def length_runAll
      del: map_eq_conv)


theorem nested_fallback_fanout_witness:
  "runNestedStatusFallback exRunner [exRepo ''a'', exRepo ''b''] None [] =
     Some (\<lparr>success = True,
            stdout = Some (str ''@@HAPI_REPO a'' @ NL @ str ''? x.ts'' @ NL @ str ''@@HAPI_REPO_END''),
            stderr = Some (str ''[b] Command failed''),
            exitCode = Some 0, error = None\<rparr>,
           [[str ''a''], [str ''b'']]) \<and>
   runNestedNumstatFallback exRunner [exRepo ''b'', exRepo ''c''] True None [] =
     Some (\<lparr>success = False, stdout = None,
            stderr = Some (str ''[b] Command failed'' @ NL @ str ''[c] Command failed''),
            exitCode = None, error = Some (str ''[b] Command failed'')\<rparr>,
           [[str ''b''], [str ''c'']])"
proof -
  have wf: "list_all (\<lambda>r. wellFormedUTF16 (relativePath r)) [exRepo ''a'', exRepo ''b'']"
    "list_all (\<lambda>r. wellFormedUTF16 (relativePath r)) [exRepo ''b'', exRepo ''c'']"
    by (simp_all add: exRepo_def str_def isLeadSurrogate_def isTrailSurrogate_def)
  note s = nested_fallback_fanout [OF _ wf(1), of exRunner None "[]" True, THEN conjunct1]
  note n = nested_fallback_fanout [OF _ wf(2), of exRunner None "[]" True,
      THEN conjunct2, THEN conjunct1]
  have 1: "runNestedStatusFallback exRunner [exRepo ''a'', exRepo ''b''] None [] =
     Some (\<lparr>success = True,
            stdout = Some (str ''@@HAPI_REPO a'' @ NL @ str ''? x.ts'' @ NL @ str ''@@HAPI_REPO_END''),
            stderr = Some (str ''[b] Command failed''),
            exitCode = Some 0, error = None\<rparr>,
           [[str ''a''], [str ''b'']])"
    using s by (simp add: fanout_defs string_defs uri_defs)
  have 2: "runNestedNumstatFallback exRunner [exRepo ''b'', exRepo ''c''] True None [] =
     Some (\<lparr>success = False, stdout = None,
            stderr = Some (str ''[b] Command failed'' @ NL @ str ''[c] Command failed''),
            exitCode = None, error = Some (str ''[b] Command failed'')\<rparr>,
           [[str ''b''], [str ''c'']])"
    using n by (simp add: fanout_defs string_defs uri_defs)
  show ?thesis using 1 2 by simp
qed

theorem nested_fallback_counterexample:
  "runNestedStatusFallback exRunner [exRepo ''e''] None [] =
     Some (\<lparr>success = True,
            stdout = Some (str ''@@HAPI_REPO e'' @ NL @ str ''@@HAPI_REPO_END''),
            stderr = Some [], exitCode = Some 0, error = None\<rparr>,
           [[str ''e'']]) \<and>
   joinWith NL (wrappedNonEmptyOutputs
     (zip [exRepo ''e''] (fst (runAll exRunner GIT_STATUS_ARGS None [exRepo ''e''] [])))) = [] \<and>
   runNestedStatusFallback exRunner [] None [] =
     Some (rpcError (str ''Not a git repository and no nested git repositories were found'')
       None, [])"
  by (simp add: runNestedStatusFallback_def nestedFanOut_def fanOutStep_def fanout_defs
      string_defs uri_defs)

end
